theory Spec2Isabelle
  imports Main "HOL-Library.AList"
begin

section \<open>Values, objects and the store\<close>

text \<open>
  The snapshot code of \<^verbatim>\<open>packages/ember-data/lib/system/snapshot.js\<close> works on
  JavaScript objects that are shared by reference between the live record graph and the
  snapshot. The embedding therefore uses an explicit store: a value is a primitive or a
  reference, and every object lives at an address of the store.
\<close>

type_synonym addr = nat

datatype val = Undefined | Null | Bool bool | Num int | Str string | Ref addr

text \<open>
  Modelled from the spec: \<^verbatim>\<open>EmptyObject\<close> of \<^verbatim>\<open>ember-data/system/empty-object\<close> is
  imported by the snapshot source and not part of it. The spec has the attribute capture
  and the caches start as empty mappings and tests presence against the mapping, so an
  \<^verbatim>\<open>EmptyObject\<close> is an object with no properties, own or inherited: its properties
  are the ones assigned to it, kept here in insertion order, and \<^verbatim>\<open>key in obj\<close> tests
  exactly those.
\<close>

type_synonym props = "(string \<times> val) list"

definition has_prop :: "props \<Rightarrow> string \<Rightarrow> bool" where
  \<comment> \<open>\<^verbatim>\<open>keyName in obj\<close>\<close>
  "has_prop ps k = (map_of ps k \<noteq> None)"

definition get_prop :: "props \<Rightarrow> string \<Rightarrow> val" where
  \<comment> \<open>\<^verbatim>\<open>obj[keyName]\<close>: a missing property reads as \<^verbatim>\<open>undefined\<close>\<close>
  "get_prop ps k = (case map_of ps k of None \<Rightarrow> Undefined | Some v \<Rightarrow> v)"

definition set_prop :: "props \<Rightarrow> string \<Rightarrow> val \<Rightarrow> props" where
  \<comment> \<open>\<^verbatim>\<open>obj[keyName] = v\<close>: overwrites in place, or appends a new property\<close>
  "set_prop ps k v = AList.update k v ps"


fun truthy :: "val \<Rightarrow> bool" where
  "truthy Undefined = False"
| "truthy Null = False"
| "truthy (Bool b) = b"
| "truthy (Num n) = (n \<noteq> 0)"
| "truthy (Str s) = (s \<noteq> [])"
| "truthy (Ref a) = True"

text \<open>
  A relationship of the live record, as \<^verbatim>\<open>belongsTo\<close> and \<^verbatim>\<open>hasMany\<close> read it:
  \<^verbatim>\<open>relationshipMeta.kind\<close>, \<^verbatim>\<open>hasData\<close>, \<^verbatim>\<open>inverseRecord\<close> (an internal model, or
  none) and \<^verbatim>\<open>members\<close> (internal models, in the order \<^verbatim>\<open>forEach\<close> visits them).
\<close>

record relationship =
  kind :: string
  hasData :: bool
  inverseRecord :: "addr option"
  members :: "addr list"

text \<open>
  The record behind an internal model: the attribute names \<^verbatim>\<open>eachAttribute\<close> visits,
  the properties \<^verbatim>\<open>get(record, keyName)\<close> reads, and the changed attributes with their
  old and new value.
\<close>

record model_record =
  attributeNames :: "string list"
  properties :: props
  changed :: "(string \<times> val \<times> val) list"

record model_type =
  modelName :: string

record internal_model =
  im_id :: val
  im_type :: model_type
  im_record :: addr
  im_relationships :: "(string \<times> relationship) list"
  im_isDeleted :: bool

text \<open>The fields the \<^verbatim>\<open>Snapshot\<close> constructor assigns to \<^verbatim>\<open>this\<close>.\<close>

record snapshot =
  s_attributes :: addr
  s_belongsToRelationships :: addr
  s_belongsToIds :: addr
  s_hasManyRelationships :: addr
  s_hasManyIds :: addr
  s_record :: addr
  s_id :: val
  s_internalModel :: addr
  s_type :: model_type
  s_modelName :: string
  s_changedAttributes :: addr

datatype obj =
    Plain props
  | Array "val list"
  | Record model_record
  | InternalModel internal_model
  | SnapshotObj snapshot

text \<open>
  The store is a list of objects; an address is an index. \<^verbatim>\<open>new\<close> and literals
  allocate at the end, so a fresh address never aliases an existing object.
\<close>

type_synonym heap = "obj list"

definition lookup :: "heap \<Rightarrow> addr \<Rightarrow> obj option" where
  "lookup h a = (if a < length h then Some (h ! a) else None)"

definition alloc :: "heap \<Rightarrow> obj \<Rightarrow> addr \<times> heap" where
  "alloc h ob = (length h, h @ [ob])"

definition store :: "heap \<Rightarrow> addr \<Rightarrow> obj \<Rightarrow> heap" where
  "store h a ob = h[a := ob]"

text \<open>
  The three \<^verbatim>\<open>throw new Ember.Error(...)\<close> sites, of \<^verbatim>\<open>attr\<close>, \<^verbatim>\<open>belongsTo\<close> and
  \<^verbatim>\<open>hasMany\<close>, each with the record that \<^verbatim>\<open>Ember.inspect\<close> prints and the key name of
  the message; \<open>TypeError\<close> is what JavaScript raises when a method is called on something
  that is not the expected kind of object.
\<close>

datatype error =
    NoAttributeNamed addr string
  | NoBelongsToNamed addr string
  | NoHasManyNamed addr string
  | TypeError

fun UnknownAttributeError :: "error \<Rightarrow> bool" where
  "UnknownAttributeError (NoAttributeNamed r k) = True"
| "UnknownAttributeError _ = False"

fun UnknownRelationshipError :: "error \<Rightarrow> bool" where
  "UnknownRelationshipError (NoBelongsToNamed r k) = True"
| "UnknownRelationshipError (NoHasManyNamed r k) = True"
| "UnknownRelationshipError _ = False"


section \<open>Constructing a snapshot\<close>

text \<open>
  The callback of \<^verbatim>\<open>record.eachAttribute\<close> in the constructor:
  \<^verbatim>\<open>this._attributes[keyName] = get(record, keyName)\<close> for each declared attribute.
\<close>

fun eachAttribute_capture :: "string list \<Rightarrow> model_record \<Rightarrow> props \<Rightarrow> props" where
  "eachAttribute_capture [] r attrs = attrs"
| "eachAttribute_capture (keyName # rest) r attrs =
     eachAttribute_capture rest r (set_prop attrs keyName (get_prop (properties r) keyName))"

text \<open>
  Modelled from the spec: \<^verbatim>\<open>record.changedAttributes()\<close> of the live record is not part
  of the snapshot source. The spec has it return the changed attributes as a mapping
  \<^verbatim>\<open>{name -> [old, new]}\<close>: a new object whose values are new two-element arrays
  holding the old and the new value as they are.
\<close>

fun changed_pairs :: "(string \<times> val \<times> val) list \<Rightarrow> heap \<Rightarrow> props \<Rightarrow> props \<times> heap" where
  "changed_pairs [] h diff = (diff, h)"
| "changed_pairs ((k, old, new) # rest) h diff =
     (let (pair, h') = alloc h (Array [old, new])
      in changed_pairs rest h' (set_prop diff k (Ref pair)))"

definition record_changedAttributes :: "heap \<Rightarrow> model_record \<Rightarrow> addr \<times> heap" where
  "record_changedAttributes h r =
     (let (diff, h') = changed_pairs (changed r) h []
      in alloc h' (Plain diff))"

text \<open>
  \<^verbatim>\<open>function Snapshot(internalModel)\<close>. The five \<^verbatim>\<open>EmptyObject\<close>s are allocated first,
  the attributes are captured, and the object \<^verbatim>\<open>this\<close> is written once all its fields
  are known. The deprecated \<^verbatim>\<open>constructor\<close> accessor the source defines at the end is
  left out: it only returns \<^verbatim>\<open>this.type\<close>.
\<close>

definition Snapshot :: "heap \<Rightarrow> addr \<Rightarrow> error + (addr \<times> heap)" where
  "Snapshot h internalModel =
     (case lookup h internalModel of
        Some (InternalModel im) \<Rightarrow>
          (case lookup h (im_record im) of
             Some (Record r) \<Rightarrow>
               (let (attrs, h1) = alloc h (Plain []);
                    (b2r, h2) = alloc h1 (Plain []);
                    (b2i, h3) = alloc h2 (Plain []);
                    (hmr, h4) = alloc h3 (Plain []);
                    (hmi, h5) = alloc h4 (Plain []);
                    h6 = store h5 attrs (Plain (eachAttribute_capture (attributeNames r) r []));
                    (chg, h7) = record_changedAttributes h6 r;
                    (this, h8) = alloc h7 (SnapshotObj
                       \<lparr> s_attributes = attrs,
                         s_belongsToRelationships = b2r,
                         s_belongsToIds = b2i,
                         s_hasManyRelationships = hmr,
                         s_hasManyIds = hmi,
                         s_record = im_record im,
                         s_id = im_id im,
                         s_internalModel = internalModel,
                         s_type = im_type im,
                         s_modelName = modelName (im_type im),
                         s_changedAttributes = chg \<rparr>)
                in Inr (this, h8))
           | _ \<Rightarrow> Inl TypeError)
      | _ \<Rightarrow> Inl TypeError)"

text \<open>
  Modelled from the spec: \<^verbatim>\<open>internalModel.createSnapshot()\<close> is not part of the
  snapshot source; the spec has it construct a fresh child \<^verbatim>\<open>Snapshot\<close> of the
  internal model it is called on.
\<close>

definition createSnapshot :: "heap \<Rightarrow> addr \<Rightarrow> error + (addr \<times> heap)" where
  "createSnapshot h internalModel = Snapshot h internalModel"


section \<open>Reading attributes\<close>

definition attr :: "heap \<Rightarrow> addr \<Rightarrow> string \<Rightarrow> error + val" where
  "attr h this keyName =
     (case lookup h this of
        Some (SnapshotObj s) \<Rightarrow>
          (case lookup h (s_attributes s) of
             Some (Plain attrs) \<Rightarrow>
               if has_prop attrs keyName then Inr (get_prop attrs keyName)
               else Inl (NoAttributeNamed (s_record s) keyName)
           | _ \<Rightarrow> Inl TypeError)
      | _ \<Rightarrow> Inl TypeError)"






section \<open>Resolving relationships\<close>

text \<open>
  The second argument of \<^verbatim>\<open>belongsTo\<close> and \<^verbatim>\<open>hasMany\<close> is an optional hash:
  \<^verbatim>\<open>options && options.id\<close> is used as a condition, so what counts is its truthiness.
\<close>

definition option_flag :: "props option \<Rightarrow> string \<Rightarrow> bool" where
  "option_flag options name =
     (case options of None \<Rightarrow> False | Some ps \<Rightarrow> truthy (get_prop ps name))"

definition cache_put :: "heap \<Rightarrow> addr \<Rightarrow> string \<Rightarrow> val \<Rightarrow> error + (val \<times> heap)" where
  \<comment> \<open>\<^verbatim>\<open>cache[keyName] = result; return result\<close>\<close>
  "cache_put h cache keyName result =
     (case lookup h cache of
        Some (Plain ps) \<Rightarrow> Inr (result, store h cache (Plain (set_prop ps keyName result)))
      | _ \<Rightarrow> Inl TypeError)"

text \<open>Lines 240 to 253 of the source: the result of a belongsTo relationship.\<close>

definition belongsTo_result :: "heap \<Rightarrow> relationship \<Rightarrow> bool \<Rightarrow> error + (val \<times> heap)" where
  "belongsTo_result h rel id' =
     (if hasData rel then
        (case inverseRecord rel of
           Some inverseRec \<Rightarrow>
             (case lookup h inverseRec of
                Some (InternalModel m) \<Rightarrow>
                  if \<not> im_isDeleted m then
                    (if id' then Inr (im_id m, h)
                     else (case createSnapshot h inverseRec of
                             Inl e \<Rightarrow> Inl e
                           | Inr (sn, h') \<Rightarrow> Inr (Ref sn, h')))
                  else Inr (Null, h)
              | _ \<Rightarrow> Inl TypeError)
         | None \<Rightarrow> Inr (Null, h))
      else Inr (Undefined, h))"

text \<open>
  Lines 235 to 261: the relationship is looked up on the live internal model, its kind is
  checked, and the result is stored in the cache of the mode before it is returned.
\<close>

definition belongsTo_resolve :: "heap \<Rightarrow> snapshot \<Rightarrow> string \<Rightarrow> bool \<Rightarrow> error + (val \<times> heap)" where
  "belongsTo_resolve h s keyName id' =
     (case lookup h (s_internalModel s) of
        Some (InternalModel im) \<Rightarrow>
          (case map_of (im_relationships im) keyName of
             Some rel \<Rightarrow>
               if kind rel = ''belongsTo'' then
                 (case belongsTo_result h rel id' of
                    Inl e \<Rightarrow> Inl e
                  | Inr (result, h') \<Rightarrow>
                      cache_put h' (if id' then s_belongsToIds s else s_belongsToRelationships s)
                        keyName result)
               else Inl (NoBelongsToNamed (s_record s) keyName)
           | None \<Rightarrow> Inl (NoBelongsToNamed (s_record s) keyName))
      | _ \<Rightarrow> Inl TypeError)"

text \<open>
  \<^verbatim>\<open>belongsTo(keyName, options)\<close>: the cache of the mode is tested first
  (lines 227 to 233); only a miss reaches the live record.
\<close>

definition belongsTo :: "heap \<Rightarrow> addr \<Rightarrow> string \<Rightarrow> props option \<Rightarrow> error + (val \<times> heap)" where
  "belongsTo h this keyName options =
     (case lookup h this of
        Some (SnapshotObj s) \<Rightarrow>
          (let id' = option_flag options ''id'' in
           if id' then
             (case lookup h (s_belongsToIds s) of
                Some (Plain ids) \<Rightarrow>
                  if has_prop ids keyName then Inr (get_prop ids keyName, h)
                  else belongsTo_resolve h s keyName id'
              | _ \<Rightarrow> Inl TypeError)
           else
             (case lookup h (s_belongsToRelationships s) of
                Some (Plain rels) \<Rightarrow>
                  if has_prop rels keyName then Inr (get_prop rels keyName, h)
                  else belongsTo_resolve h s keyName id'
              | _ \<Rightarrow> Inl TypeError))
      | _ \<Rightarrow> Inl TypeError)"

text \<open>
  The callback of \<^verbatim>\<open>members.forEach\<close> in \<^verbatim>\<open>hasMany\<close>. The array \<^verbatim>\<open>results\<close> is
  local to the call until it is cached and returned, so the pushes are collected in a
  list and the array is written to the store when the loop has ended.
\<close>

fun hasMany_forEach :: "addr list \<Rightarrow> bool \<Rightarrow> heap \<Rightarrow> val list \<Rightarrow> error + (val list \<times> heap)" where
  "hasMany_forEach [] ids h results = Inr (results, h)"
| "hasMany_forEach (member # rest) ids h results =
     (case lookup h member of
        Some (InternalModel m) \<Rightarrow>
          if \<not> im_isDeleted m then
            (if ids then hasMany_forEach rest ids h (results @ [im_id m])
             else (case createSnapshot h member of
                     Inl e \<Rightarrow> Inl e
                   | Inr (sn, h') \<Rightarrow> hasMany_forEach rest ids h' (results @ [Ref sn])))
          else hasMany_forEach rest ids h results
      | _ \<Rightarrow> Inl TypeError)"

definition hasMany_result :: "heap \<Rightarrow> relationship \<Rightarrow> bool \<Rightarrow> error + (val \<times> heap)" where
  "hasMany_result h rel ids =
     (if hasData rel then
        (case hasMany_forEach (members rel) ids h [] of
           Inl e \<Rightarrow> Inl e
         | Inr (results, h') \<Rightarrow> (let (a, h'') = alloc h' (Array results) in Inr (Ref a, h'')))
      else Inr (Undefined, h))"

definition hasMany_resolve :: "heap \<Rightarrow> snapshot \<Rightarrow> string \<Rightarrow> bool \<Rightarrow> error + (val \<times> heap)" where
  "hasMany_resolve h s keyName ids =
     (case lookup h (s_internalModel s) of
        Some (InternalModel im) \<Rightarrow>
          (case map_of (im_relationships im) keyName of
             Some rel \<Rightarrow>
               if kind rel = ''hasMany'' then
                 (case hasMany_result h rel ids of
                    Inl e \<Rightarrow> Inl e
                  | Inr (results, h') \<Rightarrow>
                      cache_put h' (if ids then s_hasManyIds s else s_hasManyRelationships s)
                        keyName results)
               else Inl (NoHasManyNamed (s_record s) keyName)
           | None \<Rightarrow> Inl (NoHasManyNamed (s_record s) keyName))
      | _ \<Rightarrow> Inl TypeError)"

definition hasMany :: "heap \<Rightarrow> addr \<Rightarrow> string \<Rightarrow> props option \<Rightarrow> error + (val \<times> heap)" where
  "hasMany h this keyName options =
     (case lookup h this of
        Some (SnapshotObj s) \<Rightarrow>
          (let ids = option_flag options ''ids'' in
           if ids then
             (case lookup h (s_hasManyIds s) of
                Some (Plain cached) \<Rightarrow>
                  if has_prop cached keyName then Inr (get_prop cached keyName, h)
                  else hasMany_resolve h s keyName ids
              | _ \<Rightarrow> Inl TypeError)
           else
             (case lookup h (s_hasManyRelationships s) of
                Some (Plain cached) \<Rightarrow>
                  if has_prop cached keyName then Inr (get_prop cached keyName, h)
                  else hasMany_resolve h s keyName ids
              | _ \<Rightarrow> Inl TypeError))
      | _ \<Rightarrow> Inl TypeError)"


section \<open>Observations used in the statements\<close>

text \<open>
  Two stores agree on a list of addresses when they hold the same object, or no object,
  at each of them. The frame conditions below say which objects a later store must have
  kept; every other object may have changed in any way.
\<close>

definition agree_on :: "addr list \<Rightarrow> heap \<Rightarrow> heap \<Rightarrow> bool" where
  "agree_on as h h' = list_all (\<lambda>a. lookup h' a = lookup h a) as"


text \<open>
  The cache a call of \<^verbatim>\<open>belongsTo\<close> or \<^verbatim>\<open>hasMany\<close> tests and fills: the one of
  the mode its options select.
\<close>

definition belongsTo_cache :: "snapshot \<Rightarrow> props option \<Rightarrow> addr" where
  "belongsTo_cache s options =
     (if option_flag options ''id'' then s_belongsToIds s else s_belongsToRelationships s)"

definition hasMany_cache :: "snapshot \<Rightarrow> props option \<Rightarrow> addr" where
  "hasMany_cache s options =
     (if option_flag options ''ids'' then s_hasManyIds s else s_hasManyRelationships s)"

definition is_cache :: "heap \<Rightarrow> addr \<Rightarrow> bool" where
  "is_cache h a = (case lookup h a of Some (Plain ps) \<Rightarrow> True | _ \<Rightarrow> False)"

definition cached :: "heap \<Rightarrow> addr \<Rightarrow> string \<Rightarrow> val option" where
  \<comment> \<open>the entry of a key in a cache object: \<open>None\<close> when the key is not in the object\<close>
  "cached h a k = (case lookup h a of Some (Plain ps) \<Rightarrow> map_of ps k | _ \<Rightarrow> None)"


definition array_at :: "heap \<Rightarrow> val \<Rightarrow> val list option" where
  "array_at h v =
     (case v of Ref a \<Rightarrow> (case lookup h a of Some (Array xs) \<Rightarrow> Some xs | _ \<Rightarrow> None)
      | _ \<Rightarrow> None)"

definition snapshot_at :: "heap \<Rightarrow> val \<Rightarrow> snapshot option" where
  "snapshot_at h v =
     (case v of Ref a \<Rightarrow> (case lookup h a of Some (SnapshotObj s) \<Rightarrow> Some s | _ \<Rightarrow> None)
      | _ \<Rightarrow> None)"

definition child_of :: "heap \<Rightarrow> val \<Rightarrow> (addr \<times> val) option" where
  \<comment> \<open>the internal model a child snapshot was constructed from, and the id it holds\<close>
  "child_of h v = map_option (\<lambda>cs. (s_internalModel cs, s_id cs)) (snapshot_at h v)"

text \<open>The live internal models a relationship refers to.\<close>

definition has_record :: "heap \<Rightarrow> addr \<Rightarrow> bool" where
  \<comment> \<open>an internal model whose \<^verbatim>\<open>getRecord()\<close> yields a record\<close>
  "has_record h a =
     (case lookup h a of
        Some (InternalModel m) \<Rightarrow>
          (case lookup h (im_record m) of Some (Record r) \<Rightarrow> True | _ \<Rightarrow> False)
      | _ \<Rightarrow> False)"

definition alive :: "heap \<Rightarrow> addr \<Rightarrow> bool" where
  \<comment> \<open>an internal model whose \<^verbatim>\<open>isDeleted()\<close> is false\<close>
  "alive h a = (case lookup h a of Some (InternalModel m) \<Rightarrow> \<not> im_isDeleted m | _ \<Rightarrow> False)"

definition id_of :: "heap \<Rightarrow> addr \<Rightarrow> val" where
  "id_of h a = (case lookup h a of Some (InternalModel m) \<Rightarrow> im_id m | _ \<Rightarrow> Undefined)"





definition snapshot_ok :: "heap \<Rightarrow> addr \<Rightarrow> bool" where
  \<comment> \<open>the attribute mapping and the changed-attribute mapping of a snapshot are objects of
      the store, and every changed attribute holds a pair array of the store\<close>
  "snapshot_ok h this =
     (case lookup h this of
        Some (SnapshotObj s) \<Rightarrow>
          (case lookup h (s_attributes s) of
             Some (Plain attrs) \<Rightarrow>
               (case lookup h (s_changedAttributes s) of
                  Some (Plain stored) \<Rightarrow> list_all (\<lambda>(k, v). array_at h v \<noteq> None) stored
                | _ \<Rightarrow> False)
           | _ \<Rightarrow> False)
      | _ \<Rightarrow> False)"



text \<open>
  The kind of the relationship a name resolves to on the live record, and the property
  of the four caches that every name they hold resolves to a relationship of the kind of
  the cache.
\<close>

definition relationship_kind :: "internal_model \<Rightarrow> string \<Rightarrow> string option" where
  \<comment> \<open>\<^verbatim>\<open>relationshipMeta.kind\<close> of the relationship a name resolves to, if it resolves\<close>
  "relationship_kind im k = map_option kind (map_of (im_relationships im) k)"

definition keys_resolve :: "heap \<Rightarrow> addr \<Rightarrow> internal_model \<Rightarrow> string \<Rightarrow> bool" where
  "keys_resolve h a im kd =
     (case lookup h a of
        Some (Plain ps) \<Rightarrow> list_all (\<lambda>k. relationship_kind im k = Some kd) (map fst ps)
      | _ \<Rightarrow> False)"

definition caches_of :: "snapshot \<Rightarrow> addr list" where
  "caches_of s =
     [s_belongsToRelationships s, s_belongsToIds s, s_hasManyRelationships s, s_hasManyIds s]"

definition caches_sound :: "heap \<Rightarrow> snapshot \<Rightarrow> internal_model \<Rightarrow> bool" where
  "caches_sound h s im =
     (distinct (caches_of s)
      \<and> keys_resolve h (s_belongsToRelationships s) im ''belongsTo''
      \<and> keys_resolve h (s_belongsToIds s) im ''belongsTo''
      \<and> keys_resolve h (s_hasManyRelationships s) im ''hasMany''
      \<and> keys_resolve h (s_hasManyIds s) im ''hasMany'')"

definition snapshot_inv :: "heap \<Rightarrow> addr \<Rightarrow> bool" where
  "snapshot_inv h this =
     (case lookup h this of
        Some (SnapshotObj s) \<Rightarrow>
          (case lookup h (s_internalModel s) of
             Some (InternalModel im) \<Rightarrow> caches_sound h s im
           | _ \<Rightarrow> False)
      | _ \<Rightarrow> False)"

text \<open>
  The states in which a snapshot is used. A snapshot comes from the constructor; its
  relationship methods are called on it; in between, the rest of the program may change
  the store in any way that keeps the snapshot and its four caches (which the snapshot
  alone writes) and keeps the kind of every relationship of the live record: the
  relationships of a model type are declared once, only their contents change.
\<close>

inductive in_use :: "heap \<Rightarrow> addr \<Rightarrow> bool" where
  constructed: "Snapshot h m = Inr (this, h') \<Longrightarrow> in_use h' this"
| called_belongsTo: "in_use h this \<Longrightarrow> belongsTo h this k options = Inr (v, h') \<Longrightarrow> in_use h' this"
| called_hasMany: "in_use h this \<Longrightarrow> hasMany h this k options = Inr (v, h') \<Longrightarrow> in_use h' this"
| elsewhere:
    "in_use h this \<Longrightarrow> lookup h this = Some (SnapshotObj s)
       \<Longrightarrow> lookup h (s_internalModel s) = Some (InternalModel im)
       \<Longrightarrow> agree_on (this # caches_of s) h h'
       \<Longrightarrow> lookup h' (s_internalModel s) = Some (InternalModel im')
       \<Longrightarrow> \<forall>k. relationship_kind im' k = relationship_kind im k
       \<Longrightarrow> in_use h' this"


text \<open>
  What may happen to the store between two calls on a snapshot: any call of
  \<^verbatim>\<open>belongsTo\<close> or \<^verbatim>\<open>hasMany\<close> on it that returns, for any name and under any mode,
  and any change made elsewhere that keeps the snapshot object and the listed caches.
  The live record and every other object may change in any way.
\<close>

inductive later_on :: "addr \<Rightarrow> addr list \<Rightarrow> heap \<Rightarrow> heap \<Rightarrow> bool"
  for this :: addr and cs :: "addr list" where
  now: "later_on this cs h h"
| after_belongsTo:
    "later_on this cs h0 h \<Longrightarrow> belongsTo h this k options = Inr (v, h') \<Longrightarrow> later_on this cs h0 h'"
| after_hasMany:
    "later_on this cs h0 h \<Longrightarrow> hasMany h this k options = Inr (v, h') \<Longrightarrow> later_on this cs h0 h'"
| after_elsewhere:
    "later_on this cs h0 h \<Longrightarrow> agree_on (this # cs) h h' \<Longrightarrow> later_on this cs h0 h'"


section \<open>An example store\<close>

text \<open>
  A post with a title changed from \<open>A\<close> to \<open>B\<close> and an array-valued attribute, an author
  with id 7, an editor and likes that were never loaded, two comments of which the second
  is deleted, and a reviewer and a list of drafts that refer to the deleted comment only.
\<close>

definition example_record :: model_record where
  "example_record =
     \<lparr> attributeNames = [''title'', ''tags''],
       properties = [(''title'', Str ''B''), (''tags'', Ref 0)],
       changed = [(''title'', Str ''A'', Str ''B'')] \<rparr>"

definition example_post :: internal_model where
  "example_post =
     \<lparr> im_id = Str ''1'', im_type = \<lparr> modelName = ''post'' \<rparr>, im_record = 1,
       im_relationships =
         [(''author'', \<lparr> kind = ''belongsTo'', hasData = True, inverseRecord = Some 4, members = [] \<rparr>),
          (''editor'', \<lparr> kind = ''belongsTo'', hasData = False, inverseRecord = None, members = [] \<rparr>),
          (''comments'', \<lparr> kind = ''hasMany'', hasData = True, inverseRecord = None, members = [6, 8] \<rparr>),
          (''likes'', \<lparr> kind = ''hasMany'', hasData = False, inverseRecord = None, members = [] \<rparr>),
          (''reviewer'', \<lparr> kind = ''belongsTo'', hasData = True, inverseRecord = Some 8, members = [] \<rparr>),
          (''drafts'', \<lparr> kind = ''hasMany'', hasData = True, inverseRecord = None, members = [8] \<rparr>)],
       im_isDeleted = False \<rparr>"

definition blank_record :: model_record where
  "blank_record = \<lparr> attributeNames = [], properties = [], changed = [] \<rparr>"

definition example_member :: "string \<Rightarrow> string \<Rightarrow> addr \<Rightarrow> bool \<Rightarrow> internal_model" where
  "example_member i name r deleted =
     \<lparr> im_id = Str i, im_type = \<lparr> modelName = name \<rparr>, im_record = r,
       im_relationships = [], im_isDeleted = deleted \<rparr>"

definition example_store :: heap where
  "example_store =
     [Array [Str ''x''],
      Record example_record,
      InternalModel example_post,
      Record blank_record,
      InternalModel (example_member ''7'' ''user'' 3 False),
      Record blank_record,
      InternalModel (example_member ''2'' ''comment'' 5 False),
      Record blank_record,
      InternalModel (example_member ''3'' ''comment'' 7 True)]"


text \<open>The snapshot of the post, and the store after its construction.\<close>

definition example_snapshot :: addr where
  "example_snapshot = fst (projr (Snapshot example_store 2))"

definition example_snapshot_store :: heap where
  "example_snapshot_store = snd (projr (Snapshot example_store 2))"

definition example_fields :: snapshot where
  "example_fields = the (snapshot_at example_snapshot_store (Ref example_snapshot))"

text \<open>Later states of the live post: its relationships gone, or the missing data loaded.\<close>

definition example_post_without_relationships :: internal_model where
  "example_post_without_relationships = example_post \<lparr> im_relationships := [] \<rparr>"

definition example_post_loaded :: internal_model where
  "example_post_loaded = example_post \<lparr> im_relationships :=
     [(''author'', \<lparr> kind = ''belongsTo'', hasData = True, inverseRecord = Some 4, members = [] \<rparr>),
      (''editor'', \<lparr> kind = ''belongsTo'', hasData = True, inverseRecord = Some 4, members = [] \<rparr>),
      (''comments'', \<lparr> kind = ''hasMany'', hasData = True, inverseRecord = None, members = [6, 8] \<rparr>),
      (''likes'', \<lparr> kind = ''hasMany'', hasData = True, inverseRecord = None, members = [6] \<rparr>),
      (''reviewer'', \<lparr> kind = ''belongsTo'', hasData = True, inverseRecord = Some 4, members = [] \<rparr>),
      (''drafts'', \<lparr> kind = ''hasMany'', hasData = True, inverseRecord = None, members = [] \<rparr>)] \<rparr>"


text \<open>
  Stores reached after a first resolution: more relationships are resolved under the
  same mode, and then the live post loses its relationships or has its data loaded.
\<close>

definition example_after_author :: heap where
  "example_after_author =
     snd (projr (belongsTo example_snapshot_store example_snapshot ''author'' None))"

definition example_after_author_later :: heap where
  "example_after_author_later =
     store
       (snd (projr (hasMany
          (snd (projr (belongsTo example_after_author example_snapshot ''editor'' None)))
          example_snapshot ''comments'' None)))
       2 (InternalModel example_post_without_relationships)"

definition example_after_comments :: heap where
  "example_after_comments =
     snd (projr (hasMany example_snapshot_store example_snapshot ''comments'' (Some [(''ids'', Bool True)])))"

definition example_after_comments_later :: heap where
  "example_after_comments_later =
     store
       (snd (projr (belongsTo
          (snd (projr (hasMany example_after_comments example_snapshot ''drafts'' (Some [(''ids'', Bool True)]))))
          example_snapshot ''author'' None)))
       2 (InternalModel example_post_without_relationships)"

definition example_after_editor_later :: heap where
  "example_after_editor_later =
     store
       (snd (projr (belongsTo
          (snd (projr (belongsTo example_snapshot_store example_snapshot ''editor'' None)))
          example_snapshot ''author'' None)))
       2 (InternalModel example_post_loaded)"

definition example_after_likes_later :: heap where
  "example_after_likes_later =
     store
       (snd (projr (hasMany
          (snd (projr (hasMany example_snapshot_store example_snapshot ''likes'' None)))
          example_snapshot ''comments'' None)))
       2 (InternalModel example_post_loaded)"


section \<open>The store grows by allocation only\<close>


lemma lookup_Some_less: "lookup h a = Some ob \<Longrightarrow> a < length h"
  by (simp add: lookup_def split: if_splits)

lemma lookup_append_old: "a < length h \<Longrightarrow> lookup (h @ ext) a = lookup h a"
  by (simp add: lookup_def nth_append)

lemma lookup_append_Some: "lookup h a = Some ob \<Longrightarrow> lookup (h @ ext) a = Some ob"
  by (simp add: lookup_def nth_append split: if_splits)

lemma lookup_append_new: "lookup (h @ ext) (length h + i) = (if i < length ext then Some (ext ! i) else None)"
  by (simp add: lookup_def nth_append)

lemma lookup_store: "lookup (store h a ob) b = (if b = a \<and> a < length h then Some ob else lookup h b)"
  by (simp add: lookup_def store_def)

lemma length_store [simp]: "length (store h a ob) = length h"
  by (simp add: store_def)

lemma map_of_eachAttribute_capture:
  "map_of (eachAttribute_capture ks r attrs) k =
     (if k \<in> set ks then Some (get_prop (properties r) k) else map_of attrs k)"
  by (induction ks arbitrary: attrs) (auto simp: set_prop_def update_conv')

lemma changed_pairs_store:
  "changed_pairs cs h diff = (diff', h') \<Longrightarrow>
     h' = h @ map (\<lambda>(k, old, new). Array [old, new]) cs"
proof (induction cs arbitrary: h diff)
  case Nil
  then show ?case by simp
next
  case (Cons c cs)
  obtain k old new where c: "c = (k, old, new)" by (cases c) auto
  from Cons.prems have "changed_pairs cs (h @ [Array [old, new]]) (set_prop diff k (Ref (length h))) = (diff', h')"
    by (simp add: c alloc_def)
  from Cons.IH [OF this] show ?case by (simp add: c)
qed

lemma Snapshot_Inr:
  assumes "Snapshot h m = Inr (this, h')"
  shows "\<exists>im r diff s. lookup h m = Some (InternalModel im) \<and> lookup h (im_record im) = Some (Record r)
     \<and> h' = h @ [Plain (eachAttribute_capture (attributeNames r) r []), Plain [], Plain [], Plain [], Plain []]
              @ map (\<lambda>(k, old, new). Array [old, new]) (changed r) @ [Plain diff, SnapshotObj s]
     \<and> this = length h + 6 + length (changed r)
     \<and> s = \<lparr> s_attributes = length h,
                         s_belongsToRelationships = length h + 1,
                         s_belongsToIds = length h + 2,
                         s_hasManyRelationships = length h + 3,
                         s_hasManyIds = length h + 4,
                         s_record = im_record im,
                         s_id = im_id im,
                         s_internalModel = m,
                         s_type = im_type im,
                         s_modelName = modelName (im_type im),
                         s_changedAttributes = length h + 5 + length (changed r) \<rparr>"
  using assms
  apply (simp add: Snapshot_def split: option.splits obj.splits)
  apply (simp add: alloc_def store_def record_changedAttributes_def split: prod.splits)
  apply (auto dest!: changed_pairs_store simp: list_update_append)
  done

lemma Snapshot_facts:
  assumes "Snapshot h m = Inr (this, h')"
  obtains im r s ext where
    "lookup h m = Some (InternalModel im)" "lookup h (im_record im) = Some (Record r)"
    "h' = h @ ext" "length h \<le> this" "lookup h' this = Some (SnapshotObj s)"
    "s_id s = im_id im" "s_internalModel s = m" "s_record s = im_record im"
    "s_modelName s = modelName (im_type im)"
    "length h \<le> s_attributes s"
    "lookup h' (s_attributes s) = Some (Plain (eachAttribute_capture (attributeNames r) r []))"
    "lookup h' (s_belongsToRelationships s) = Some (Plain [])"
    "lookup h' (s_belongsToIds s) = Some (Plain [])"
    "lookup h' (s_hasManyRelationships s) = Some (Plain [])"
    "lookup h' (s_hasManyIds s) = Some (Plain [])"
proof -
  from Snapshot_Inr [OF assms] obtain im r diff s where
    im: "lookup h m = Some (InternalModel im)" and r: "lookup h (im_record im) = Some (Record r)"
    and h': "h' = h @ [Plain (eachAttribute_capture (attributeNames r) r []), Plain [], Plain [], Plain [], Plain []]
              @ map (\<lambda>(k, old, new). Array [old, new]) (changed r) @ [Plain diff, SnapshotObj s]"
    and tdef: "this = length h + 6 + length (changed r)"
    and s: "s = \<lparr> s_attributes = length h,
                         s_belongsToRelationships = length h + 1,
                         s_belongsToIds = length h + 2,
                         s_hasManyRelationships = length h + 3,
                         s_hasManyIds = length h + 4,
                         s_record = im_record im,
                         s_id = im_id im,
                         s_internalModel = m,
                         s_type = im_type im,
                         s_modelName = modelName (im_type im),
                         s_changedAttributes = length h + 5 + length (changed r) \<rparr>"
    by blast
  have ext: "h' = h @ ([Plain (eachAttribute_capture (attributeNames r) r []), Plain [], Plain [], Plain [], Plain []]
              @ map (\<lambda>(k, old, new). Array [old, new]) (changed r) @ [Plain diff, SnapshotObj s])"
    by (simp add: h')
  have t: "lookup h' this = Some (SnapshotObj s)"
    by (simp add: h' tdef lookup_def nth_append)
  show thesis
    by (rule that [OF im r ext _ t]) (simp_all add: tdef s h' lookup_def nth_append)
qed


section \<open>Attributes\<close>

text \<open>
  C1. For every attribute name captured in a snapshot, \<^verbatim>\<open>attr(name)\<close> returns the value
  the live record held when the snapshot was constructed, and it keeps returning that
  value in every later store that still holds the snapshot object and its attribute
  mapping, however the live record, its internal model or any other object has changed.
\<close>

theorem attr_returns_value_captured_at_construction:
  assumes "lookup h m = Some (InternalModel im)"
      and "lookup h (im_record im) = Some (Record r)"
      and "Snapshot h m = Inr (this, h')"
      and "keyName \<in> set (attributeNames r)"
      and "lookup h' this = Some (SnapshotObj s)"
      and "agree_on [this, s_attributes s] h' h''"
  shows "attr h'' this keyName = Inr (get_prop (properties r) keyName)"
proof -
  from Snapshot_facts [OF assms(3)] obtain im' r' s' where
    im': "lookup h m = Some (InternalModel im')" and r': "lookup h (im_record im') = Some (Record r')"
    and t: "lookup h' this = Some (SnapshotObj s')"
    and a: "lookup h' (s_attributes s') = Some (Plain (eachAttribute_capture (attributeNames r') r' []))"
    by metis
  from im' assms(1) have "im' = im" by simp
  with r' assms(2) have [simp]: "r' = r" by simp
  from t assms(5) have [simp]: "s' = s" by simp
  from assms(5,6) have t'': "lookup h'' this = Some (SnapshotObj s)"
    by (simp add: agree_on_def)
  from a assms(6)
  have a'': "lookup h'' (s_attributes s) = Some (Plain (eachAttribute_capture (attributeNames r) r []))"
    by (simp add: agree_on_def)
  show ?thesis
    using assms(4)
    by (simp add: attr_def t'' a'' has_prop_def get_prop_def map_of_eachAttribute_capture)
qed

theorem attr_returns_value_captured_at_construction_witness:
  "attr
     (store (snd (projr (belongsTo example_snapshot_store example_snapshot ''author'' None))) 1
        (Record (example_record \<lparr> properties := [(''title'', Str ''C''), (''tags'', Null)] \<rparr>)))
     example_snapshot ''title'' = Inr (Str ''B'')"
proof -
  let ?h' = example_snapshot_store
  let ?snap = example_snapshot
  let ?h'' = "store (snd (projr (belongsTo ?h' ?snap ''author'' None))) 1
        (Record (example_record \<lparr> properties := [(''title'', Str ''C''), (''tags'', Null)] \<rparr>))"
  have 1: "lookup example_store 2 = Some (InternalModel example_post)" by code_simp
  have 2: "lookup example_store (im_record example_post) = Some (Record example_record)" by code_simp
  have 3: "Snapshot example_store 2 = Inr (?snap, ?h')" by code_simp
  have 4: "''title'' \<in> set (attributeNames example_record)" by code_simp
  have 5: "lookup ?h' ?snap = Some (SnapshotObj example_fields)" by code_simp
  have 6: "agree_on [?snap, s_attributes example_fields] ?h' ?h''" by code_simp
  have 7: "get_prop (properties example_record) ''title'' = Str ''B''" by code_simp
  show ?thesis
    using attr_returns_value_captured_at_construction [OF 1 2 3 4 5 6] 7 by simp
qed

text \<open>
  C6. On a constructed snapshot, in every later store that still holds the snapshot
  object and its attribute mapping, \<^verbatim>\<open>attr(name)\<close> fails exactly when the name is not
  in the captured attribute mapping, the failure is the unknown-attribute error, the
  captured names are the attribute names the record declares, and for a captured name
  the call returns the captured value.
\<close>

theorem attr_fails_exactly_for_undeclared_names:
  assumes "lookup h m = Some (InternalModel im)"
      and "lookup h (im_record im) = Some (Record r)"
      and "Snapshot h m = Inr (this, h')"
      and "lookup h' this = Some (SnapshotObj s)"
      and "agree_on [this, s_attributes s] h' h''"
  shows "\<exists>attrs. lookup h'' (s_attributes s) = Some (Plain attrs)
           \<and> (\<forall>k. has_prop attrs k \<longleftrightarrow> k \<in> set (attributeNames r))
           \<and> (\<forall>k. (\<exists>e. attr h'' this k = Inl e) \<longleftrightarrow> \<not> has_prop attrs k)
           \<and> (\<forall>k. \<not> has_prop attrs k \<longrightarrow>
                  attr h'' this k = Inl (NoAttributeNamed (im_record im) k)
                  \<and> UnknownAttributeError (NoAttributeNamed (im_record im) k))
           \<and> (\<forall>k. has_prop attrs k \<longrightarrow> attr h'' this k = Inr (get_prop attrs k))"
proof -
  from Snapshot_facts [OF assms(3)] obtain im' r' s' where
    im': "lookup h m = Some (InternalModel im')" and r': "lookup h (im_record im') = Some (Record r')"
    and t0: "lookup h' this = Some (SnapshotObj s')"
    and sr': "s_record s' = im_record im'"
    and a0: "lookup h' (s_attributes s') = Some (Plain (eachAttribute_capture (attributeNames r') r' []))"
    by metis
  from im' assms(1) have [simp]: "im' = im" by simp
  with r' assms(2) have [simp]: "r' = r" by simp
  from t0 assms(4) have [simp]: "s' = s" by simp
  from sr' have sr: "s_record s = im_record im" by simp
  let ?attrs = "eachAttribute_capture (attributeNames r) r []"
  from assms(4,5) have t: "lookup h'' this = Some (SnapshotObj s)" by (simp add: agree_on_def)
  from a0 assms(5) have a: "lookup h'' (s_attributes s) = Some (Plain ?attrs)"
    by (simp add: agree_on_def)
  have keys: "\<forall>k. has_prop ?attrs k \<longleftrightarrow> k \<in> set (attributeNames r)"
    by (simp add: has_prop_def map_of_eachAttribute_capture)
  have res: "\<forall>k. attr h'' this k =
      (if has_prop ?attrs k then Inr (get_prop ?attrs k) else Inl (NoAttributeNamed (im_record im) k))"
    using t a sr by (simp add: attr_def)
  from a keys res show ?thesis
    by (intro exI [of _ ?attrs]) simp
qed

theorem attr_fails_exactly_for_undeclared_names_witness:
  "attr
     (store (snd (projr (hasMany example_snapshot_store example_snapshot ''comments'' None))) 2
        (InternalModel example_post_without_relationships))
     example_snapshot ''author'' = Inl (NoAttributeNamed 1 ''author'')
   \<and> attr
     (store (snd (projr (hasMany example_snapshot_store example_snapshot ''comments'' None))) 2
        (InternalModel example_post_without_relationships))
     example_snapshot ''tags'' = Inr (Ref 0)"
proof -
  let ?h' = example_snapshot_store
  let ?snap = example_snapshot
  let ?h'' = "store (snd (projr (hasMany ?h' ?snap ''comments'' None))) 2
        (InternalModel example_post_without_relationships)"
  have 1: "lookup example_store 2 = Some (InternalModel example_post)" by code_simp
  have 2: "lookup example_store (im_record example_post) = Some (Record example_record)" by code_simp
  have 3: "Snapshot example_store 2 = Inr (?snap, ?h')" by code_simp
  have 4: "lookup ?h' ?snap = Some (SnapshotObj example_fields)" by code_simp
  have 5: "agree_on [?snap, s_attributes example_fields] ?h' ?h''" by code_simp
  from attr_fails_exactly_for_undeclared_names [OF 1 2 3 4 5] obtain attrs where
    k: "\<forall>k. has_prop attrs k \<longleftrightarrow> k \<in> set (attributeNames example_record)"
    and n: "\<forall>k. \<not> has_prop attrs k \<longrightarrow> attr ?h'' ?snap k = Inl (NoAttributeNamed (im_record example_post) k)"
    and y: "\<forall>k. has_prop attrs k \<longrightarrow> attr ?h'' ?snap k = Inr (get_prop attrs k)"
    and l: "lookup ?h'' (s_attributes example_fields) = Some (Plain attrs)"
    by blast
  have 6: "''author'' \<notin> set (attributeNames example_record)" by code_simp
  have 7: "''tags'' \<in> set (attributeNames example_record)" by code_simp
  have 8: "im_record example_post = 1" by code_simp
  have 9: "lookup ?h'' (s_attributes example_fields)
      = Some (Plain [(''title'', Str ''B''), (''tags'', Ref 0)])" by code_simp
  from l 9 have attrs: "attrs = [(''title'', Str ''B''), (''tags'', Ref 0)]" by simp
  have 10: "get_prop [(''title'', Str ''B''), (''tags'', Ref 0)] ''tags'' = Ref 0" by code_simp
  from k n 6 8 have "attr ?h'' ?snap ''author'' = Inl (NoAttributeNamed 1 ''author'')" by simp
  moreover from k y 7 attrs 10 have "attr ?h'' ?snap ''tags'' = Inr (Ref 0)" by simp
  ultimately show ?thesis by simp
qed


section \<open>Relationships\<close>

lemma Snapshot_succeeds:
  assumes "lookup h m = Some (InternalModel im)" and "lookup h (im_record im) = Some (Record r)"
  shows "\<exists>this h'. Snapshot h m = Inr (this, h')"
  using assms by (simp add: Snapshot_def split: prod.splits)

lemma belongsTo_result_extends:
  assumes "belongsTo_result h rel id' = Inr (v, h')"
  shows "\<exists>ext. h' = h @ ext"
proof (cases "hasData rel \<and> \<not> id' \<and> (\<exists>a m. inverseRecord rel = Some a \<and> lookup h a = Some (InternalModel m) \<and> \<not> im_isDeleted m)")
  case True
  then obtain a m where "inverseRecord rel = Some a" "lookup h a = Some (InternalModel m)" "\<not> im_isDeleted m"
    "hasData rel" "\<not> id'" by blast
  with assms obtain sn where "Snapshot h a = Inr (sn, h')"
    by (auto simp: belongsTo_result_def createSnapshot_def split: sum.splits)
  from Snapshot_facts [OF this] show ?thesis by blast
next
  case False
  with assms have "h' = h"
    by (auto simp: belongsTo_result_def split: if_splits option.splits obj.splits sum.splits)
  then show ?thesis by simp
qed

lemma hasMany_forEach_extends:
  "hasMany_forEach ms ids h acc = Inr (res, h') \<Longrightarrow> \<exists>ext. h' = h @ ext"
proof (induction ms arbitrary: h acc)
  case Nil
  then show ?case by simp
next
  case (Cons member rest)
  from Cons.prems obtain m where m: "lookup h member = Some (InternalModel m)"
    by (auto split: option.splits obj.splits)
  show ?case
  proof (cases "\<not> im_isDeleted m \<and> \<not> ids")
    case True
    with Cons.prems m obtain sn h1 where sn: "Snapshot h member = Inr (sn, h1)"
      and rest: "hasMany_forEach rest ids h1 (acc @ [Ref sn]) = Inr (res, h')"
      by (auto simp: createSnapshot_def split: sum.splits)
    from Snapshot_facts [OF sn] obtain ext1 where "h1 = h @ ext1" by blast
    moreover from Cons.IH [OF rest] obtain ext2 where "h' = h1 @ ext2" by blast
    ultimately show ?thesis by simp
  next
    case False
    with Cons.prems m obtain acc' where "hasMany_forEach rest ids h acc' = Inr (res, h')"
      by (auto split: if_splits)
    from Cons.IH [OF this] show ?thesis .
  qed
qed

lemma hasMany_result_extends:
  assumes "hasMany_result h rel ids = Inr (v, h')"
  shows "\<exists>ext. h' = h @ ext"
proof (cases "hasData rel")
  case True
  with assms obtain res h1 where "hasMany_forEach (members rel) ids h [] = Inr (res, h1)"
    and "h' = h1 @ [Array res]"
    by (auto simp: hasMany_result_def alloc_def split: sum.splits)
  with hasMany_forEach_extends [of "members rel" ids h "[]" res h1] show ?thesis by auto
next
  case False
  with assms show ?thesis by (simp add: hasMany_result_def)
qed

lemma cached_SomeD:
  "cached h a k = Some v \<Longrightarrow> \<exists>ps. lookup h a = Some (Plain ps) \<and> has_prop ps k \<and> get_prop ps k = v"
  by (auto simp: cached_def has_prop_def get_prop_def split: option.splits obj.splits)

lemma is_cacheD:
  "is_cache h a \<Longrightarrow> cached h a k = None \<Longrightarrow> \<exists>ps. lookup h a = Some (Plain ps) \<and> \<not> has_prop ps k"
  by (auto simp: is_cache_def cached_def has_prop_def split: option.splits obj.splits)

lemma belongsTo_hit:
  assumes "lookup h this = Some (SnapshotObj s)"
      and "cached h (belongsTo_cache s options) keyName = Some v"
  shows "belongsTo h this keyName options = Inr (v, h)"
  using assms(1) cached_SomeD [OF assms(2)]
  by (auto simp: belongsTo_def belongsTo_cache_def split: if_splits)

lemma hasMany_hit:
  assumes "lookup h this = Some (SnapshotObj s)"
      and "cached h (hasMany_cache s options) keyName = Some v"
  shows "hasMany h this keyName options = Inr (v, h)"
  using assms(1) cached_SomeD [OF assms(2)]
  by (auto simp: hasMany_def hasMany_cache_def split: if_splits)

lemma belongsTo_miss:
  assumes "lookup h this = Some (SnapshotObj s)"
      and "is_cache h (belongsTo_cache s options)"
      and "cached h (belongsTo_cache s options) keyName = None"
  shows "belongsTo h this keyName options = belongsTo_resolve h s keyName (option_flag options ''id'')"
  using assms(1) is_cacheD [OF assms(2,3)]
  by (auto simp: belongsTo_def belongsTo_cache_def split: if_splits)

lemma hasMany_miss:
  assumes "lookup h this = Some (SnapshotObj s)"
      and "is_cache h (hasMany_cache s options)"
      and "cached h (hasMany_cache s options) keyName = None"
  shows "hasMany h this keyName options = hasMany_resolve h s keyName (option_flag options ''ids'')"
  using assms(1) is_cacheD [OF assms(2,3)]
  by (auto simp: hasMany_def hasMany_cache_def split: if_splits)

lemma cache_put_Inr:
  assumes "cache_put h c k v = Inr (v', h')"
  shows "v' = v \<and> length h' = length h \<and> cached h' c k = Some v
         \<and> (\<forall>b. b \<noteq> c \<longrightarrow> lookup h' b = lookup h b) \<and> is_cache h c"
proof -
  from assms obtain ps where ps: "lookup h c = Some (Plain ps)"
    and v': "v' = v" and h': "h' = store h c (Plain (set_prop ps k v))"
    by (auto simp: cache_put_def split: option.splits obj.splits)
  from ps have lt: "c < length h" by (rule lookup_Some_less)
  have "cached h' c k = Some v"
    using lt by (simp add: cached_def h' lookup_store set_prop_def update_conv')
  moreover have "\<forall>b. b \<noteq> c \<longrightarrow> lookup h' b = lookup h b"
    by (simp add: h' lookup_store)
  moreover have "is_cache h c" using ps by (simp add: is_cache_def)
  ultimately show ?thesis using v' h' by simp
qed

lemma cache_put_succeeds:
  assumes "lookup h c = Some (Plain ps)"
  shows "cache_put h c k v = Inr (v, store h c (Plain (set_prop ps k v)))"
  using assms by (simp add: cache_put_def)


lemma belongsTo_resolve_Inr:
  assumes "belongsTo_resolve h s k id' = Inr (v, h1)"
  obtains im rel h' where
    "lookup h (s_internalModel s) = Some (InternalModel im)"
    "map_of (im_relationships im) k = Some rel" "kind rel = ''belongsTo''"
    "belongsTo_result h rel id' = Inr (v, h')"
    "cache_put h' (if id' then s_belongsToIds s else s_belongsToRelationships s) k v = Inr (v, h1)"
proof -
  from assms obtain im where im: "lookup h (s_internalModel s) = Some (InternalModel im)"
    by (auto simp: belongsTo_resolve_def split: option.splits obj.splits)
  with assms obtain rel where rel: "map_of (im_relationships im) k = Some rel"
    and kd: "kind rel = ''belongsTo''"
    by (auto simp: belongsTo_resolve_def split: option.splits if_splits)
  with assms im obtain res h' where res: "belongsTo_result h rel id' = Inr (res, h')"
    and put: "cache_put h' (if id' then s_belongsToIds s else s_belongsToRelationships s) k res = Inr (v, h1)"
    by (auto simp: belongsTo_resolve_def split: sum.splits)
  from cache_put_Inr [OF put] have "v = res" by simp
  with im rel kd res put that show thesis by blast
qed

lemma hasMany_resolve_Inr:
  assumes "hasMany_resolve h s k ids = Inr (v, h1)"
  obtains im rel h' where
    "lookup h (s_internalModel s) = Some (InternalModel im)"
    "map_of (im_relationships im) k = Some rel" "kind rel = ''hasMany''"
    "hasMany_result h rel ids = Inr (v, h')"
    "cache_put h' (if ids then s_hasManyIds s else s_hasManyRelationships s) k v = Inr (v, h1)"
proof -
  from assms obtain im where im: "lookup h (s_internalModel s) = Some (InternalModel im)"
    by (auto simp: hasMany_resolve_def split: option.splits obj.splits)
  with assms obtain rel where rel: "map_of (im_relationships im) k = Some rel"
    and kd: "kind rel = ''hasMany''"
    by (auto simp: hasMany_resolve_def split: option.splits if_splits)
  with assms im obtain res h' where res: "hasMany_result h rel ids = Inr (res, h')"
    and put: "cache_put h' (if ids then s_hasManyIds s else s_hasManyRelationships s) k res = Inr (v, h1)"
    by (auto simp: hasMany_resolve_def split: sum.splits)
  from cache_put_Inr [OF put] have "v = res" by simp
  with im rel kd res put that show thesis by blast
qed

lemma put_after_extension:
  assumes t: "lookup h this = Some (SnapshotObj s)"
      and put: "cache_put (h @ ext) c k v = Inr (v, h1)"
  shows "lookup h1 this = Some (SnapshotObj s) \<and> cached h1 c k = Some v"
proof -
  from t have t': "lookup (h @ ext) this = Some (SnapshotObj s)" by (rule lookup_append_Some)
  from cache_put_Inr [OF put] have c: "cached h1 c k = Some v"
    and fr: "\<forall>b. b \<noteq> c \<longrightarrow> lookup h1 b = lookup (h @ ext) b" and ic: "is_cache (h @ ext) c"
    by simp_all
  from ic t' have "this \<noteq> c" by (auto simp: is_cache_def)
  with fr t' c show ?thesis by simp
qed

lemma belongsTo_Inr_cached:
  assumes call: "belongsTo h this k options = Inr (v, h1)"
      and t: "lookup h this = Some (SnapshotObj s)"
  shows "lookup h1 this = Some (SnapshotObj s) \<and> cached h1 (belongsTo_cache s options) k = Some v"
proof -
  let ?c = "belongsTo_cache s options"
  from call t obtain ps where ps: "lookup h ?c = Some (Plain ps)"
    by (auto simp: belongsTo_def belongsTo_cache_def Let_def split: if_splits option.splits obj.splits)
  show ?thesis
  proof (cases "has_prop ps k")
    case True
    with call t ps have "v = get_prop ps k" "h1 = h"
      by (auto simp: belongsTo_def belongsTo_cache_def Let_def split: if_splits)
    with True ps t show ?thesis
      by (auto simp: cached_def has_prop_def get_prop_def)
  next
    case False
    with ps have "is_cache h ?c" "cached h ?c k = None"
      by (simp_all add: is_cache_def cached_def has_prop_def)
    from belongsTo_miss [OF t this] call
    have "belongsTo_resolve h s k (option_flag options ''id'') = Inr (v, h1)" by simp
    then obtain rel h' where res: "belongsTo_result h rel (option_flag options ''id'') = Inr (v, h')"
      and put: "cache_put h' ?c k v = Inr (v, h1)"
      by (rule belongsTo_resolve_Inr) (simp add: belongsTo_cache_def)
    from belongsTo_result_extends [OF res] obtain ext where "h' = h @ ext" by blast
    with put put_after_extension [OF t] show ?thesis by blast
  qed
qed

lemma hasMany_Inr_cached:
  assumes call: "hasMany h this k options = Inr (v, h1)"
      and t: "lookup h this = Some (SnapshotObj s)"
  shows "lookup h1 this = Some (SnapshotObj s) \<and> cached h1 (hasMany_cache s options) k = Some v"
proof -
  let ?c = "hasMany_cache s options"
  from call t obtain ps where ps: "lookup h ?c = Some (Plain ps)"
    by (auto simp: hasMany_def hasMany_cache_def Let_def split: if_splits option.splits obj.splits)
  show ?thesis
  proof (cases "has_prop ps k")
    case True
    with call t ps have "v = get_prop ps k" "h1 = h"
      by (auto simp: hasMany_def hasMany_cache_def Let_def split: if_splits)
    with True ps t show ?thesis
      by (auto simp: cached_def has_prop_def get_prop_def)
  next
    case False
    with ps have "is_cache h ?c" "cached h ?c k = None"
      by (simp_all add: is_cache_def cached_def has_prop_def)
    from hasMany_miss [OF t this] call
    have "hasMany_resolve h s k (option_flag options ''ids'') = Inr (v, h1)" by simp
    then obtain rel h' where res: "hasMany_result h rel (option_flag options ''ids'') = Inr (v, h')"
      and put: "cache_put h' ?c k v = Inr (v, h1)"
      by (rule hasMany_resolve_Inr) (simp add: hasMany_cache_def)
    from hasMany_result_extends [OF res] obtain ext where "h' = h @ ext" by blast
    with put put_after_extension [OF t] show ?thesis by blast
  qed
qed

lemma same_mode_belongsTo_cache:
  "option_flag options' ''id'' = option_flag options ''id'' \<Longrightarrow>
     belongsTo_cache s options' = belongsTo_cache s options"
  by (simp add: belongsTo_cache_def)

lemma same_mode_hasMany_cache:
  "option_flag options' ''ids'' = option_flag options ''ids'' \<Longrightarrow>
     hasMany_cache s options' = hasMany_cache s options"
  by (simp add: hasMany_cache_def)

lemma cached_append: "cached h c k = Some v \<Longrightarrow> cached (h @ ext) c k = Some v"
  by (auto simp: cached_def lookup_append_Some split: option.splits obj.splits)

lemma cache_put_keeps_entry:
  assumes put: "cache_put h c' k' v' = Inr (r, h')"
      and miss: "cached h c' k' = None"
      and e: "cached h c k = Some v"
  shows "cached h' c k = Some v"
proof (cases "c = c'")
  case False
  with cache_put_Inr [OF put] have "lookup h' c = lookup h c" by simp
  with e show ?thesis by (simp add: cached_def)
next
  case True
  from e obtain ps where ps: "lookup h c = Some (Plain ps)" and k: "map_of ps k = Some v"
    by (auto simp: cached_def split: option.splits obj.splits)
  from miss ps True have "map_of ps k' = None" by (simp add: cached_def)
  with k have ne: "k \<noteq> k'" by auto
  from ps have lt: "c < length h" by (rule lookup_Some_less)
  from put ps True have "h' = store h c (Plain (set_prop ps k' v'))"
    by (auto simp: cache_put_def)
  with lt have "lookup h' c = Some (Plain (set_prop ps k' v'))" by (simp add: lookup_store)
  with k ne show ?thesis by (simp add: cached_def set_prop_def update_conv')
qed

lemma cache_put_frame:
  assumes "cache_put h c' k' v' = Inr (r, h')"
  shows "\<forall>b. b \<noteq> c' \<longrightarrow> lookup h' b = lookup h b"
  using cache_put_Inr [OF assms] by simp

text \<open>What a returning call does to the store.\<close>

lemma belongsTo_effect:
  assumes call: "belongsTo h this k' options' = Inr (v', h')"
      and t: "lookup h this = Some (SnapshotObj s)"
  shows "lookup h' this = Some (SnapshotObj s)"
    and "cached h c k = Some v \<Longrightarrow> cached h' c k = Some v"
    and "b \<noteq> belongsTo_cache s options' \<Longrightarrow> b < length h \<Longrightarrow> lookup h' b = lookup h b"
proof -
  let ?c' = "belongsTo_cache s options'"
  from belongsTo_Inr_cached [OF call t] show "lookup h' this = Some (SnapshotObj s)" by simp
  from call t obtain ps where ps: "lookup h ?c' = Some (Plain ps)"
    by (auto simp: belongsTo_def belongsTo_cache_def Let_def split: if_splits option.splits obj.splits)
  have "(cached h c k = Some v \<longrightarrow> cached h' c k = Some v)
      \<and> (b \<noteq> ?c' \<longrightarrow> b < length h \<longrightarrow> lookup h' b = lookup h b)"
  proof (cases "has_prop ps k'")
    case True
    with call t ps have "h' = h"
      by (auto simp: belongsTo_def belongsTo_cache_def Let_def split: if_splits)
    then show ?thesis by simp
  next
    case False
    with ps have ic: "is_cache h ?c'" and miss: "cached h ?c' k' = None"
      by (simp_all add: is_cache_def cached_def has_prop_def)
    from belongsTo_miss [OF t ic miss] call
    have "belongsTo_resolve h s k' (option_flag options' ''id'') = Inr (v', h')" by simp
    then obtain rel h'' where res: "belongsTo_result h rel (option_flag options' ''id'') = Inr (v', h'')"
      and put: "cache_put h'' ?c' k' v' = Inr (v', h')"
      by (rule belongsTo_resolve_Inr) (simp add: belongsTo_cache_def)
    from belongsTo_result_extends [OF res] obtain ext where ext: "h'' = h @ ext" by blast
    from ps have miss'': "cached h'' ?c' k' = None"
      using miss by (simp add: ext cached_def lookup_append_Some)
    have 1: "cached h' c k = Some v" if "cached h c k = Some v"
      by (rule cache_put_keeps_entry [OF put miss'']) (simp add: ext cached_append that)
    have 2: "lookup h' b = lookup h b" if "b \<noteq> ?c'" "b < length h"
      using cache_put_frame [OF put] that by (simp add: ext lookup_append_old)
    from 1 2 show ?thesis by blast
  qed
  then show "cached h c k = Some v \<Longrightarrow> cached h' c k = Some v"
    and "b \<noteq> ?c' \<Longrightarrow> b < length h \<Longrightarrow> lookup h' b = lookup h b" by blast+
qed

lemma hasMany_effect:
  assumes call: "hasMany h this k' options' = Inr (v', h')"
      and t: "lookup h this = Some (SnapshotObj s)"
  shows "lookup h' this = Some (SnapshotObj s)"
    and "cached h c k = Some v \<Longrightarrow> cached h' c k = Some v"
    and "b \<noteq> hasMany_cache s options' \<Longrightarrow> b < length h \<Longrightarrow> lookup h' b = lookup h b"
proof -
  let ?c' = "hasMany_cache s options'"
  from hasMany_Inr_cached [OF call t] show "lookup h' this = Some (SnapshotObj s)" by simp
  from call t obtain ps where ps: "lookup h ?c' = Some (Plain ps)"
    by (auto simp: hasMany_def hasMany_cache_def Let_def split: if_splits option.splits obj.splits)
  have "(cached h c k = Some v \<longrightarrow> cached h' c k = Some v)
      \<and> (b \<noteq> ?c' \<longrightarrow> b < length h \<longrightarrow> lookup h' b = lookup h b)"
  proof (cases "has_prop ps k'")
    case True
    with call t ps have "h' = h"
      by (auto simp: hasMany_def hasMany_cache_def Let_def split: if_splits)
    then show ?thesis by simp
  next
    case False
    with ps have ic: "is_cache h ?c'" and miss: "cached h ?c' k' = None"
      by (simp_all add: is_cache_def cached_def has_prop_def)
    from hasMany_miss [OF t ic miss] call
    have "hasMany_resolve h s k' (option_flag options' ''ids'') = Inr (v', h')" by simp
    then obtain rel h'' where res: "hasMany_result h rel (option_flag options' ''ids'') = Inr (v', h'')"
      and put: "cache_put h'' ?c' k' v' = Inr (v', h')"
      by (rule hasMany_resolve_Inr) (simp add: hasMany_cache_def)
    from hasMany_result_extends [OF res] obtain ext where ext: "h'' = h @ ext" by blast
    from ps have miss'': "cached h'' ?c' k' = None"
      using miss by (simp add: ext cached_def lookup_append_Some)
    have 1: "cached h' c k = Some v" if "cached h c k = Some v"
      by (rule cache_put_keeps_entry [OF put miss'']) (simp add: ext cached_append that)
    have 2: "lookup h' b = lookup h b" if "b \<noteq> ?c'" "b < length h"
      using cache_put_frame [OF put] that by (simp add: ext lookup_append_old)
    from 1 2 show ?thesis by blast
  qed
  then show "cached h c k = Some v \<Longrightarrow> cached h' c k = Some v"
    and "b \<noteq> ?c' \<Longrightarrow> b < length h \<Longrightarrow> lookup h' b = lookup h b" by blast+
qed

lemma later_on_keeps_snapshot:
  assumes "later_on this cs h1 h2" and "lookup h1 this = Some (SnapshotObj s)"
  shows "lookup h2 this = Some (SnapshotObj s)"
  using assms
proof (induction rule: later_on.induct)
  case (now h)
  then show ?case .
next
  case (after_belongsTo h0 h k options v h')
  then show ?case by (blast intro: belongsTo_effect(1))
next
  case (after_hasMany h0 h k options v h')
  then show ?case by (blast intro: hasMany_effect(1))
next
  case (after_elsewhere h0 h h')
  then show ?case by (simp add: agree_on_def)
qed

lemma later_on_keeps_entry:
  assumes "later_on this cs h1 h2" and "c \<in> set cs"
      and "lookup h1 this = Some (SnapshotObj s)" and "cached h1 c k = Some v"
  shows "cached h2 c k = Some v"
  using assms
proof (induction rule: later_on.induct)
  case (now h)
  then show ?case by simp
next
  case (after_belongsTo h0 h k' options v' h')
  from later_on_keeps_snapshot [OF after_belongsTo.hyps(1) after_belongsTo.prems(2)]
  have "lookup h this = Some (SnapshotObj s)" .
  from belongsTo_effect(2) [OF after_belongsTo.hyps(2) this] after_belongsTo.IH after_belongsTo.prems
  show ?case by blast
next
  case (after_hasMany h0 h k' options v' h')
  from later_on_keeps_snapshot [OF after_hasMany.hyps(1) after_hasMany.prems(2)]
  have "lookup h this = Some (SnapshotObj s)" .
  from hasMany_effect(2) [OF after_hasMany.hyps(2) this] after_hasMany.IH after_hasMany.prems
  show ?case by blast
next
  case (after_elsewhere h0 h h')
  then have "cached h c k = Some v" by blast
  moreover from after_elsewhere.hyps(2) after_elsewhere.prems(1) have "lookup h' c = lookup h c"
    by (simp add: agree_on_def list_all_iff)
  ultimately show ?case by (simp add: cached_def)
qed

lemma Snapshot_caches_distinct:
  assumes "Snapshot h m = Inr (this, h')" and "lookup h' this = Some (SnapshotObj s)"
  shows "distinct (caches_of s)"
proof -
  from Snapshot_Inr [OF assms(1)] obtain im r diff s' where
    im: "lookup h m = Some (InternalModel im)" and
    h': "h' = h @ [Plain (eachAttribute_capture (attributeNames r) r []), Plain [], Plain [], Plain [], Plain []]
              @ map (\<lambda>(k, old, new). Array [old, new]) (changed r) @ [Plain diff, SnapshotObj s']"
    and tdef: "this = length h + 6 + length (changed r)"
    and s': "s' = \<lparr> s_attributes = length h,
                         s_belongsToRelationships = length h + 1,
                         s_belongsToIds = length h + 2,
                         s_hasManyRelationships = length h + 3,
                         s_hasManyIds = length h + 4,
                         s_record = im_record im,
                         s_id = im_id im,
                         s_internalModel = m,
                         s_type = im_type im,
                         s_modelName = modelName (im_type im),
                         s_changedAttributes = length h + 5 + length (changed r) \<rparr>"
    by blast
  have "lookup h' this = Some (SnapshotObj s')"
    by (simp add: h' tdef lookup_def nth_append)
  with assms(2) have e: "s = s'" by simp
  have "distinct (caches_of s')" unfolding s' caches_of_def by simp
  with e show ?thesis by simp
qed

text \<open>
  C2. A call of \<^verbatim>\<open>belongsTo\<close> or \<^verbatim>\<open>hasMany\<close> that returns leaves its result in the
  cache of its mode, and every later call for the same name under the same mode returns
  that very value and leaves the store as it is: whatever other names and modes have been
  resolved on the snapshot in between, and however the live record and its relationships
  have changed, the live record is not read again for that name and mode. A call writes
  no existing object but the cache of its mode, and the four caches of a constructed
  snapshot are four different objects, so what is resolved under one mode is not an
  answer under the other.
\<close>

theorem relationship_resolved_once_per_mode:
  assumes "lookup h this = Some (SnapshotObj s)"
  shows "(belongsTo h this keyName options = Inr (v, h1)
            \<longrightarrow> later_on this [belongsTo_cache s options] h1 h2
            \<longrightarrow> option_flag options' ''id'' = option_flag options ''id''
            \<longrightarrow> cached h1 (belongsTo_cache s options) keyName = Some v
                \<and> belongsTo h2 this keyName options' = Inr (v, h2))
       \<and> (hasMany h this keyName options = Inr (v, h1)
            \<longrightarrow> later_on this [hasMany_cache s options] h1 h2
            \<longrightarrow> option_flag options' ''ids'' = option_flag options ''ids''
            \<longrightarrow> cached h1 (hasMany_cache s options) keyName = Some v
                \<and> hasMany h2 this keyName options' = Inr (v, h2))
       \<and> (belongsTo h this keyName options = Inr (v, h1)
            \<longrightarrow> (\<forall>b < length h. b \<noteq> belongsTo_cache s options \<longrightarrow> lookup h1 b = lookup h b))
       \<and> (hasMany h this keyName options = Inr (v, h1)
            \<longrightarrow> (\<forall>b < length h. b \<noteq> hasMany_cache s options \<longrightarrow> lookup h1 b = lookup h b))
       \<and> (Snapshot h0 m = Inr (this, hc) \<longrightarrow> later_on this [] hc h \<longrightarrow> distinct (caches_of s))"
proof (intro conjI impI)
  let ?c = "belongsTo_cache s options"
  assume call: "belongsTo h this keyName options = Inr (v, h1)"
    and later: "later_on this [?c] h1 h2"
    and mode: "option_flag options' ''id'' = option_flag options ''id''"
  from belongsTo_Inr_cached [OF call assms]
  have t1: "lookup h1 this = Some (SnapshotObj s)" and c1: "cached h1 ?c keyName = Some v" by simp_all
  from c1 show "cached h1 ?c keyName = Some v" .
  from later_on_keeps_snapshot [OF later t1] have t2: "lookup h2 this = Some (SnapshotObj s)" .
  from later_on_keeps_entry [OF later _ t1 c1] have "cached h2 ?c keyName = Some v" by simp
  with same_mode_belongsTo_cache [OF mode]
  have "cached h2 (belongsTo_cache s options') keyName = Some v" by simp
  from belongsTo_hit [OF t2 this] show "belongsTo h2 this keyName options' = Inr (v, h2)" .
next
  let ?c = "hasMany_cache s options"
  assume call: "hasMany h this keyName options = Inr (v, h1)"
    and later: "later_on this [?c] h1 h2"
    and mode: "option_flag options' ''ids'' = option_flag options ''ids''"
  from hasMany_Inr_cached [OF call assms]
  have t1: "lookup h1 this = Some (SnapshotObj s)" and c1: "cached h1 ?c keyName = Some v" by simp_all
  from c1 show "cached h1 ?c keyName = Some v" .
  from later_on_keeps_snapshot [OF later t1] have t2: "lookup h2 this = Some (SnapshotObj s)" .
  from later_on_keeps_entry [OF later _ t1 c1] have "cached h2 ?c keyName = Some v" by simp
  with same_mode_hasMany_cache [OF mode]
  have "cached h2 (hasMany_cache s options') keyName = Some v" by simp
  from hasMany_hit [OF t2 this] show "hasMany h2 this keyName options' = Inr (v, h2)" .
next
  assume call: "belongsTo h this keyName options = Inr (v, h1)"
  from belongsTo_effect(3) [OF call assms]
  show "\<forall>b < length h. b \<noteq> belongsTo_cache s options \<longrightarrow> lookup h1 b = lookup h b" by blast
next
  assume call: "hasMany h this keyName options = Inr (v, h1)"
  from hasMany_effect(3) [OF call assms]
  show "\<forall>b < length h. b \<noteq> hasMany_cache s options \<longrightarrow> lookup h1 b = lookup h b" by blast
next
  assume con: "Snapshot h0 m = Inr (this, hc)" and later: "later_on this [] hc h"
  from Snapshot_facts [OF con] obtain s' where t: "lookup hc this = Some (SnapshotObj s')" by metis
  from later_on_keeps_snapshot [OF later t] assms have "s' = s" by simp
  with Snapshot_caches_distinct [OF con] t show "distinct (caches_of s)" by simp
qed

theorem relationship_resolved_once_per_mode_witness:
  "belongsTo example_after_author_later example_snapshot ''author'' (Some [(''ids'', Bool True)])
     = Inr (Ref 23, example_after_author_later)
   \<and> hasMany example_after_comments_later example_snapshot ''comments'' (Some [(''ids'', Num 1)])
     = Inr (Ref 17, example_after_comments_later)
   \<and> lookup example_after_author (s_belongsToIds example_fields) = Some (Plain [])
   \<and> distinct (caches_of example_fields)"
proof -
  let ?h = example_snapshot_store
  let ?snap = example_snapshot
  let ?s = example_fields
  let ?ids = "Some [(''ids'', Bool True)]"
  let ?live = "InternalModel example_post_without_relationships"
  let ?a1 = example_after_author
  let ?a2 = "snd (projr (belongsTo ?a1 ?snap ''editor'' None))"
  let ?a3 = "snd (projr (hasMany ?a2 ?snap ''comments'' None))"
  let ?c1 = example_after_comments
  let ?c2 = "snd (projr (hasMany ?c1 ?snap ''drafts'' ?ids))"
  let ?c3 = "snd (projr (belongsTo ?c2 ?snap ''author'' None))"
  have s: "lookup ?h ?snap = Some (SnapshotObj ?s)" by code_simp
  have con: "Snapshot example_store 2 = Inr (?snap, ?h)" by code_simp
  have a1: "belongsTo ?h ?snap ''author'' None = Inr (Ref 23, ?a1)" by code_simp
  have a2: "belongsTo ?a1 ?snap ''editor'' None = Inr (Undefined, ?a2)" by code_simp
  have a3: "hasMany ?a2 ?snap ''comments'' None = Inr (fst (projr (hasMany ?a2 ?snap ''comments'' None)), ?a3)"
    by code_simp
  have a4: "agree_on (?snap # [belongsTo_cache ?s None]) ?a3 example_after_author_later" by code_simp
  have al: "later_on ?snap [belongsTo_cache ?s None] ?a1 example_after_author_later"
    by (rule later_on.after_elsewhere [OF later_on.after_hasMany [OF later_on.after_belongsTo
          [OF later_on.now a2] a3] a4])
  have am: "option_flag ?ids ''id'' = option_flag None ''id''" by code_simp
  have c1: "hasMany ?h ?snap ''comments'' ?ids = Inr (Ref 17, ?c1)" by code_simp
  have c2: "hasMany ?c1 ?snap ''drafts'' ?ids = Inr (fst (projr (hasMany ?c1 ?snap ''drafts'' ?ids)), ?c2)"
    by code_simp
  have c3: "belongsTo ?c2 ?snap ''author'' None = Inr (fst (projr (belongsTo ?c2 ?snap ''author'' None)), ?c3)"
    by code_simp
  have c4: "agree_on (?snap # [hasMany_cache ?s ?ids]) ?c3 example_after_comments_later" by code_simp
  have cl: "later_on ?snap [hasMany_cache ?s ?ids] ?c1 example_after_comments_later"
    by (rule later_on.after_elsewhere [OF later_on.after_belongsTo [OF later_on.after_hasMany
          [OF later_on.now c2] c3] c4])
  have cm: "option_flag (Some [(''ids'', Num 1)]) ''ids'' = option_flag ?ids ''ids''" by code_simp
  have lt: "s_belongsToIds ?s < length ?h" "s_belongsToIds ?s \<noteq> belongsTo_cache ?s None" by code_simp+
  have e: "lookup ?h (s_belongsToIds ?s) = Some (Plain [])" by code_simp
  from relationship_resolved_once_per_mode [OF s, of "''author''" None "Ref 23" ?a1 example_after_author_later ?ids] a1 al am
  have 1: "belongsTo example_after_author_later ?snap ''author'' ?ids = Inr (Ref 23, example_after_author_later)"
    by blast
  from relationship_resolved_once_per_mode [OF s, of "''comments''" ?ids "Ref 17" ?c1 example_after_comments_later
      "Some [(''ids'', Num 1)]"] c1 cl cm
  have 2: "hasMany example_after_comments_later ?snap ''comments'' (Some [(''ids'', Num 1)])
      = Inr (Ref 17, example_after_comments_later)"
    by blast
  from relationship_resolved_once_per_mode [OF s, of "''author''" None "Ref 23" ?a1] a1 lt
  have "lookup ?a1 (s_belongsToIds ?s) = lookup ?h (s_belongsToIds ?s)" by blast
  with e have 3: "lookup ?a1 (s_belongsToIds ?s) = Some (Plain [])" by simp
  from relationship_resolved_once_per_mode [OF s, of _ _ _ _ _ _ example_store 2 ?h] con later_on.now [of ?snap "[]" ?h]
  have 4: "distinct (caches_of ?s)" by blast
  from 1 2 3 4 show ?thesis by simp
qed

lemma belongsTo_resolves:
  assumes t: "lookup h this = Some (SnapshotObj s)"
      and ic: "is_cache h (belongsTo_cache s options)"
      and miss: "cached h (belongsTo_cache s options) k = None"
      and im: "lookup h (s_internalModel s) = Some (InternalModel im)"
      and rel: "map_of (im_relationships im) k = Some rel"
      and kd: "kind rel = ''belongsTo''"
      and res: "belongsTo_result h rel (option_flag options ''id'') = Inr (v, h')"
  shows "\<exists>h1. belongsTo h this k options = Inr (v, h1)
           \<and> cached h1 (belongsTo_cache s options) k = Some v
           \<and> length h1 = length h'
           \<and> (\<forall>b. b \<noteq> belongsTo_cache s options \<longrightarrow> lookup h1 b = lookup h' b)"
proof -
  let ?c = "belongsTo_cache s options"
  from is_cacheD [OF ic miss] obtain ps where ps: "lookup h ?c = Some (Plain ps)" by blast
  from belongsTo_result_extends [OF res] obtain ext where "h' = h @ ext" by blast
  with ps have ps': "lookup h' ?c = Some (Plain ps)" by (simp add: lookup_append_Some)
  have "belongsTo h this k options = cache_put h' ?c k v"
    using belongsTo_miss [OF t ic miss] im rel kd res
    by (simp add: belongsTo_resolve_def belongsTo_cache_def)
  with cache_put_succeeds [OF ps', of k v]
  have call: "belongsTo h this k options = Inr (v, store h' ?c (Plain (set_prop ps k v)))"
    and put: "cache_put h' ?c k v = Inr (v, store h' ?c (Plain (set_prop ps k v)))" by simp_all
  from cache_put_Inr [OF put] call show ?thesis by simp
qed

lemma hasMany_resolves:
  assumes t: "lookup h this = Some (SnapshotObj s)"
      and ic: "is_cache h (hasMany_cache s options)"
      and miss: "cached h (hasMany_cache s options) k = None"
      and im: "lookup h (s_internalModel s) = Some (InternalModel im)"
      and rel: "map_of (im_relationships im) k = Some rel"
      and kd: "kind rel = ''hasMany''"
      and res: "hasMany_result h rel (option_flag options ''ids'') = Inr (v, h')"
  shows "\<exists>h1. hasMany h this k options = Inr (v, h1)
           \<and> cached h1 (hasMany_cache s options) k = Some v
           \<and> length h1 = length h'
           \<and> (\<forall>b. b \<noteq> hasMany_cache s options \<longrightarrow> lookup h1 b = lookup h' b)"
proof -
  let ?c = "hasMany_cache s options"
  from is_cacheD [OF ic miss] obtain ps where ps: "lookup h ?c = Some (Plain ps)" by blast
  from hasMany_result_extends [OF res] obtain ext where "h' = h @ ext" by blast
  with ps have ps': "lookup h' ?c = Some (Plain ps)" by (simp add: lookup_append_Some)
  have "hasMany h this k options = cache_put h' ?c k v"
    using hasMany_miss [OF t ic miss] im rel kd res
    by (simp add: hasMany_resolve_def hasMany_cache_def)
  with cache_put_succeeds [OF ps', of k v]
  have call: "hasMany h this k options = Inr (v, store h' ?c (Plain (set_prop ps k v)))"
    and put: "cache_put h' ?c k v = Inr (v, store h' ?c (Plain (set_prop ps k v)))" by simp_all
  from cache_put_Inr [OF put] call show ?thesis by simp
qed

lemma belongsTo_result_unknown:
  "\<not> hasData rel \<Longrightarrow> belongsTo_result h rel id' = Inr (Undefined, h)"
  by (simp add: belongsTo_result_def)

lemma hasMany_result_unknown:
  "\<not> hasData rel \<Longrightarrow> hasMany_result h rel ids = Inr (Undefined, h)"
  by (simp add: hasMany_result_def)

text \<open>
  C10. When the first call under a mode finds \<^verbatim>\<open>hasData\<close> false, it returns
  \<^verbatim>\<open>undefined\<close>, the unknown result, and the key is then present in the cache of that
  mode with that value; every later call under the mode returns \<^verbatim>\<open>undefined\<close> from the
  cache and leaves the store as it is, whatever else has been resolved on the snapshot in
  between and whatever the live relationship holds by then.
\<close>

theorem unknown_result_is_cached:
  assumes "lookup h this = Some (SnapshotObj s)"
      and "lookup h (s_internalModel s) = Some (InternalModel im)"
      and "map_of (im_relationships im) keyName = Some rel"
      and "\<not> hasData rel"
  shows "(kind rel = ''belongsTo''
            \<longrightarrow> is_cache h (belongsTo_cache s options)
            \<longrightarrow> cached h (belongsTo_cache s options) keyName = None
            \<longrightarrow> (\<exists>h1. belongsTo h this keyName options = Inr (Undefined, h1)
                   \<and> cached h1 (belongsTo_cache s options) keyName = Some Undefined
                   \<and> (later_on this [belongsTo_cache s options] h1 h2
                        \<longrightarrow> belongsTo h2 this keyName options = Inr (Undefined, h2))))
       \<and> (kind rel = ''hasMany''
            \<longrightarrow> is_cache h (hasMany_cache s options)
            \<longrightarrow> cached h (hasMany_cache s options) keyName = None
            \<longrightarrow> (\<exists>h1. hasMany h this keyName options = Inr (Undefined, h1)
                   \<and> cached h1 (hasMany_cache s options) keyName = Some Undefined
                   \<and> (later_on this [hasMany_cache s options] h1 h2
                        \<longrightarrow> hasMany h2 this keyName options = Inr (Undefined, h2))))"
proof (intro conjI impI)
  let ?c = "belongsTo_cache s options"
  assume kd: "kind rel = ''belongsTo''" and ic: "is_cache h ?c" and miss: "cached h ?c keyName = None"
  from belongsTo_resolves [OF assms(1) ic miss assms(2,3) kd belongsTo_result_unknown [OF assms(4)]]
  obtain h1 where call: "belongsTo h this keyName options = Inr (Undefined, h1)"
    and c1: "cached h1 ?c keyName = Some Undefined" by blast
  from belongsTo_Inr_cached [OF call assms(1)] have t1: "lookup h1 this = Some (SnapshotObj s)" by simp
  have "belongsTo h2 this keyName options = Inr (Undefined, h2)" if later: "later_on this [?c] h1 h2"
  proof -
    from later_on_keeps_snapshot [OF later t1] have t2: "lookup h2 this = Some (SnapshotObj s)" .
    from later_on_keeps_entry [OF later _ t1 c1] have "cached h2 ?c keyName = Some Undefined" by simp
    from belongsTo_hit [OF t2 this] show ?thesis .
  qed
  with call c1 show "\<exists>h1. belongsTo h this keyName options = Inr (Undefined, h1)
       \<and> cached h1 ?c keyName = Some Undefined
       \<and> (later_on this [?c] h1 h2 \<longrightarrow> belongsTo h2 this keyName options = Inr (Undefined, h2))"
    by blast
next
  let ?c = "hasMany_cache s options"
  assume kd: "kind rel = ''hasMany''" and ic: "is_cache h ?c" and miss: "cached h ?c keyName = None"
  from hasMany_resolves [OF assms(1) ic miss assms(2,3) kd hasMany_result_unknown [OF assms(4)]]
  obtain h1 where call: "hasMany h this keyName options = Inr (Undefined, h1)"
    and c1: "cached h1 ?c keyName = Some Undefined" by blast
  from hasMany_Inr_cached [OF call assms(1)] have t1: "lookup h1 this = Some (SnapshotObj s)" by simp
  have "hasMany h2 this keyName options = Inr (Undefined, h2)" if later: "later_on this [?c] h1 h2"
  proof -
    from later_on_keeps_snapshot [OF later t1] have t2: "lookup h2 this = Some (SnapshotObj s)" .
    from later_on_keeps_entry [OF later _ t1 c1] have "cached h2 ?c keyName = Some Undefined" by simp
    from hasMany_hit [OF t2 this] show ?thesis .
  qed
  with call c1 show "\<exists>h1. hasMany h this keyName options = Inr (Undefined, h1)
       \<and> cached h1 ?c keyName = Some Undefined
       \<and> (later_on this [?c] h1 h2 \<longrightarrow> hasMany h2 this keyName options = Inr (Undefined, h2))"
    by blast
qed

theorem unknown_result_is_cached_witness:
  "belongsTo example_after_editor_later example_snapshot ''editor'' None
     = Inr (Undefined, example_after_editor_later)
   \<and> hasMany example_after_likes_later example_snapshot ''likes'' None
     = Inr (Undefined, example_after_likes_later)"
proof -
  let ?h = example_snapshot_store
  let ?snap = example_snapshot
  let ?s = example_fields
  let ?editor = "\<lparr> kind = ''belongsTo'', hasData = False, inverseRecord = None, members = [] \<rparr>"
  let ?likes = "\<lparr> kind = ''hasMany'', hasData = False, inverseRecord = None, members = [] \<rparr>"
  let ?b1 = "snd (projr (belongsTo ?h ?snap ''editor'' None))"
  let ?b2 = "snd (projr (belongsTo ?b1 ?snap ''author'' None))"
  let ?m1 = "snd (projr (hasMany ?h ?snap ''likes'' None))"
  let ?m2 = "snd (projr (hasMany ?m1 ?snap ''comments'' None))"
  have s: "lookup ?h ?snap = Some (SnapshotObj ?s)" by code_simp
  have im: "lookup ?h (s_internalModel ?s) = Some (InternalModel example_post)" by code_simp
  have e: "map_of (im_relationships example_post) ''editor'' = Some ?editor" by code_simp
  have l: "map_of (im_relationships example_post) ''likes'' = Some ?likes" by code_simp
  have ne: "\<not> hasData ?editor" by simp
  have nl: "\<not> hasData ?likes" by simp
  have ke: "kind ?editor = ''belongsTo''" by simp
  have kl: "kind ?likes = ''hasMany''" by simp
  have ce: "is_cache ?h (belongsTo_cache ?s None)" "cached ?h (belongsTo_cache ?s None) ''editor'' = None"
    by code_simp+
  have cl: "is_cache ?h (hasMany_cache ?s None)" "cached ?h (hasMany_cache ?s None) ''likes'' = None"
    by code_simp+
  have b2: "belongsTo ?b1 ?snap ''author'' None = Inr (fst (projr (belongsTo ?b1 ?snap ''author'' None)), ?b2)"
    by code_simp
  have b3: "agree_on (?snap # [belongsTo_cache ?s None]) ?b2 example_after_editor_later" by code_simp
  have bl: "later_on ?snap [belongsTo_cache ?s None] ?b1 example_after_editor_later"
    by (rule later_on.after_elsewhere [OF later_on.after_belongsTo [OF later_on.now b2] b3])
  have m2: "hasMany ?m1 ?snap ''comments'' None = Inr (fst (projr (hasMany ?m1 ?snap ''comments'' None)), ?m2)"
    by code_simp
  have m3: "agree_on (?snap # [hasMany_cache ?s None]) ?m2 example_after_likes_later" by code_simp
  have ml: "later_on ?snap [hasMany_cache ?s None] ?m1 example_after_likes_later"
    by (rule later_on.after_elsewhere [OF later_on.after_hasMany [OF later_on.now m2] m3])
  from unknown_result_is_cached [OF s im e ne, of None example_after_editor_later] ke ce
  obtain h1 where c1: "belongsTo ?h ?snap ''editor'' None = Inr (Undefined, h1)"
    and i1: "later_on ?snap [belongsTo_cache ?s None] h1 example_after_editor_later
        \<longrightarrow> belongsTo example_after_editor_later ?snap ''editor'' None
              = Inr (Undefined, example_after_editor_later)"
    by blast
  from c1 have "h1 = ?b1" by simp
  with i1 bl have 1: "belongsTo example_after_editor_later ?snap ''editor'' None
      = Inr (Undefined, example_after_editor_later)" by simp
  from unknown_result_is_cached [OF s im l nl, of None example_after_likes_later] kl cl
  obtain h1' where c2: "hasMany ?h ?snap ''likes'' None = Inr (Undefined, h1')"
    and i2: "later_on ?snap [hasMany_cache ?s None] h1' example_after_likes_later
        \<longrightarrow> hasMany example_after_likes_later ?snap ''likes'' None
              = Inr (Undefined, example_after_likes_later)"
    by blast
  from c2 have "h1' = ?m1" by simp
  with i2 ml have 2: "hasMany example_after_likes_later ?snap ''likes'' None
      = Inr (Undefined, example_after_likes_later)" by simp
  from 1 2 show ?thesis by simp
qed

text \<open>
  The caches of a snapshot in use hold only names that resolve on the live record to a
  relationship of the kind of the cache: a name enters a cache only after the kind check
  of lines 236 and 307 has passed.
\<close>

lemma keys_resolve_iff:
  "keys_resolve h a im kd \<longleftrightarrow>
     (\<exists>ps. lookup h a = Some (Plain ps) \<and> (\<forall>k \<in> fst ` set ps. relationship_kind im k = Some kd))"
  by (auto simp: keys_resolve_def list_all_iff split: option.splits obj.splits)

lemma keys_resolve_miss:
  assumes "keys_resolve h a im kd" and "relationship_kind im k \<noteq> Some kd"
  shows "is_cache h a \<and> cached h a k = None"
proof -
  from assms(1) obtain ps where ps: "lookup h a = Some (Plain ps)"
    and all: "\<forall>k \<in> fst ` set ps. relationship_kind im k = Some kd"
    by (auto simp: keys_resolve_iff)
  from all assms(2) have "k \<notin> fst ` set ps" by blast
  then have "map_of ps k = None" by (simp add: map_of_eq_None_iff)
  with ps show ?thesis by (simp add: is_cache_def cached_def)
qed

lemma keys_resolve_agree:
  assumes "keys_resolve h a im kd" and "lookup h' a = lookup h a"
      and "\<forall>k. relationship_kind im' k = relationship_kind im k"
  shows "keys_resolve h' a im' kd"
  using assms by (auto simp: keys_resolve_iff)

lemma keys_resolve_put:
  assumes kr: "keys_resolve h a im kd"
      and put: "cache_put h c k v = Inr (v', h')"
      and k: "a = c \<longrightarrow> relationship_kind im k = Some kd"
  shows "keys_resolve h' a im kd"
proof (cases "a = c")
  case False
  with cache_put_Inr [OF put] have "lookup h' a = lookup h a" by simp
  with kr show ?thesis by (auto simp: keys_resolve_iff)
next
  case True
  from kr obtain ps where ps: "lookup h a = Some (Plain ps)"
    and all: "\<forall>k \<in> fst ` set ps. relationship_kind im k = Some kd"
    by (auto simp: keys_resolve_iff)
  from ps have lt: "a < length h" by (rule lookup_Some_less)
  from put ps True have "h' = store h a (Plain (set_prop ps k v))"
    by (auto simp: cache_put_def)
  with lt have "lookup h' a = Some (Plain (set_prop ps k v))" by (simp add: lookup_store)
  moreover have "\<forall>k' \<in> fst ` set (set_prop ps k v). relationship_kind im k' = Some kd"
    using all k True by (auto simp: set_prop_def dom_update)
  ultimately show ?thesis by (auto simp: keys_resolve_iff)
qed

lemma keys_resolve_append:
  "keys_resolve h a im kd \<Longrightarrow> keys_resolve (h @ ext) a im kd"
  by (auto simp: keys_resolve_iff lookup_append_Some)

lemma snapshot_inv_iff:
  "snapshot_inv h this \<longleftrightarrow>
     (\<exists>s im. lookup h this = Some (SnapshotObj s)
        \<and> lookup h (s_internalModel s) = Some (InternalModel im)
        \<and> caches_sound h s im)"
proof (cases "lookup h this")
  case None
  then show ?thesis by (simp add: snapshot_inv_def)
next
  case (Some ob)
  show ?thesis
  proof (cases ob)
    case (SnapshotObj s)
    show ?thesis
    proof (cases "lookup h (s_internalModel s)")
      case None
      with Some SnapshotObj show ?thesis by (simp add: snapshot_inv_def)
    next
      case (Some ob')
      with \<open>lookup h this = Some ob\<close> SnapshotObj show ?thesis
        by (cases ob') (simp_all add: snapshot_inv_def)
    qed
  qed (use Some in \<open>simp_all add: snapshot_inv_def\<close>)
qed

lemma Snapshot_inv:
  assumes "Snapshot h m = Inr (this, h')"
  shows "snapshot_inv h' this"
proof -
  from Snapshot_Inr [OF assms] obtain im r diff s where
    im: "lookup h m = Some (InternalModel im)"
    and h': "h' = h @ [Plain (eachAttribute_capture (attributeNames r) r []), Plain [], Plain [], Plain [], Plain []]
              @ map (\<lambda>(k, old, new). Array [old, new]) (changed r) @ [Plain diff, SnapshotObj s]"
    and tdef: "this = length h + 6 + length (changed r)"
    and s: "s = \<lparr> s_attributes = length h,
                         s_belongsToRelationships = length h + 1,
                         s_belongsToIds = length h + 2,
                         s_hasManyRelationships = length h + 3,
                         s_hasManyIds = length h + 4,
                         s_record = im_record im,
                         s_id = im_id im,
                         s_internalModel = m,
                         s_type = im_type im,
                         s_modelName = modelName (im_type im),
                         s_changedAttributes = length h + 5 + length (changed r) \<rparr>"
    by blast
  have t: "lookup h' this = Some (SnapshotObj s)"
    by (simp add: h' tdef lookup_def nth_append)
  have m: "lookup h' (s_internalModel s) = Some (InternalModel im)"
    using im by (simp add: s h' lookup_append_Some)
  have c: "lookup h' (length h + 1) = Some (Plain [])" "lookup h' (length h + 2) = Some (Plain [])"
    "lookup h' (length h + 3) = Some (Plain [])" "lookup h' (length h + 4) = Some (Plain [])"
    by (simp_all add: h' lookup_def nth_append)
  have "keys_resolve h' (length h + 1) im ''belongsTo''" "keys_resolve h' (length h + 2) im ''belongsTo''"
    "keys_resolve h' (length h + 3) im ''hasMany''" "keys_resolve h' (length h + 4) im ''hasMany''"
    using c by (simp_all add: keys_resolve_def)
  then have "caches_sound h' s im"
    by (simp add: caches_sound_def caches_of_def s)
  with t m show ?thesis by (auto simp: snapshot_inv_iff)
qed

lemma caches_sound_put:
  assumes cs: "caches_sound h s im"
      and put: "cache_put h c k v = Inr (v', h')"
      and b: "c = s_belongsToRelationships s \<or> c = s_belongsToIds s \<longrightarrow> relationship_kind im k = Some ''belongsTo''"
      and m: "c = s_hasManyRelationships s \<or> c = s_hasManyIds s \<longrightarrow> relationship_kind im k = Some ''hasMany''"
  shows "caches_sound h' s im"
  using cs b m
  by (auto simp: caches_sound_def intro!: keys_resolve_put [OF _ put])

lemma caches_sound_append: "caches_sound h s im \<Longrightarrow> caches_sound (h @ ext) s im"
  by (simp add: caches_sound_def keys_resolve_append)

lemma inv_after_put:
  assumes t: "lookup h this = Some (SnapshotObj s)"
      and im: "lookup h (s_internalModel s) = Some (InternalModel im)"
      and cs: "caches_sound h s im"
      and put: "cache_put (h @ ext) c k v = Inr (v', h1)"
      and b: "c = s_belongsToRelationships s \<or> c = s_belongsToIds s \<longrightarrow> relationship_kind im k = Some ''belongsTo''"
      and m: "c = s_hasManyRelationships s \<or> c = s_hasManyIds s \<longrightarrow> relationship_kind im k = Some ''hasMany''"
  shows "snapshot_inv h1 this"
proof -
  from t have t': "lookup (h @ ext) this = Some (SnapshotObj s)" by (rule lookup_append_Some)
  from im have im': "lookup (h @ ext) (s_internalModel s) = Some (InternalModel im)"
    by (rule lookup_append_Some)
  from cache_put_Inr [OF put]
  have fr: "\<forall>b. b \<noteq> c \<longrightarrow> lookup h1 b = lookup (h @ ext) b" and ic: "is_cache (h @ ext) c"
    by simp_all
  from ic t' have "this \<noteq> c" by (auto simp: is_cache_def)
  with fr t' have t1: "lookup h1 this = Some (SnapshotObj s)" by simp
  from ic im' have "s_internalModel s \<noteq> c" by (auto simp: is_cache_def)
  with fr im' have im1: "lookup h1 (s_internalModel s) = Some (InternalModel im)" by simp
  from caches_sound_put [OF caches_sound_append [OF cs] put b m]
  have "caches_sound h1 s im" .
  with t1 im1 show ?thesis by (auto simp: snapshot_inv_iff)
qed

lemma belongsTo_inv:
  assumes inv: "snapshot_inv h this" and call: "belongsTo h this k options = Inr (v, h1)"
  shows "snapshot_inv h1 this"
proof -
  from inv obtain s im where t: "lookup h this = Some (SnapshotObj s)"
    and im: "lookup h (s_internalModel s) = Some (InternalModel im)"
    and cs: "caches_sound h s im" by (auto simp: snapshot_inv_iff)
  let ?c = "belongsTo_cache s options"
  from call t obtain ps where ps: "lookup h ?c = Some (Plain ps)"
    by (auto simp: belongsTo_def belongsTo_cache_def Let_def split: if_splits option.splits obj.splits)
  show ?thesis
  proof (cases "has_prop ps k")
    case True
    with call t ps have "h1 = h"
      by (auto simp: belongsTo_def belongsTo_cache_def Let_def split: if_splits)
    with inv show ?thesis by simp
  next
    case False
    with ps have "is_cache h ?c" "cached h ?c k = None"
      by (simp_all add: is_cache_def cached_def has_prop_def)
    from belongsTo_miss [OF t this] call
    have "belongsTo_resolve h s k (option_flag options ''id'') = Inr (v, h1)" by simp
    then obtain im' rel h' where im': "lookup h (s_internalModel s) = Some (InternalModel im')"
      and rel: "map_of (im_relationships im') k = Some rel" and kd: "kind rel = ''belongsTo''"
      and res: "belongsTo_result h rel (option_flag options ''id'') = Inr (v, h')"
      and put: "cache_put h' ?c k v = Inr (v, h1)"
      by (rule belongsTo_resolve_Inr) (simp add: belongsTo_cache_def)
    from im im' have "im' = im" by simp
    with rel kd have k: "relationship_kind im k = Some ''belongsTo''" by (simp add: relationship_kind_def)
    from cs have d: "distinct (caches_of s)" by (simp add: caches_sound_def)
    have c: "?c = s_belongsToRelationships s \<or> ?c = s_belongsToIds s" by (simp add: belongsTo_cache_def)
    with d have nm: "\<not> (?c = s_hasManyRelationships s \<or> ?c = s_hasManyIds s)"
      by (auto simp: caches_of_def)
    from belongsTo_result_extends [OF res] obtain ext where "h' = h @ ext" by blast
    with put have "cache_put (h @ ext) ?c k v = Inr (v, h1)" by simp
    from inv_after_put [OF t im cs this] k nm show ?thesis by blast
  qed
qed

lemma hasMany_inv:
  assumes inv: "snapshot_inv h this" and call: "hasMany h this k options = Inr (v, h1)"
  shows "snapshot_inv h1 this"
proof -
  from inv obtain s im where t: "lookup h this = Some (SnapshotObj s)"
    and im: "lookup h (s_internalModel s) = Some (InternalModel im)"
    and cs: "caches_sound h s im" by (auto simp: snapshot_inv_iff)
  let ?c = "hasMany_cache s options"
  from call t obtain ps where ps: "lookup h ?c = Some (Plain ps)"
    by (auto simp: hasMany_def hasMany_cache_def Let_def split: if_splits option.splits obj.splits)
  show ?thesis
  proof (cases "has_prop ps k")
    case True
    with call t ps have "h1 = h"
      by (auto simp: hasMany_def hasMany_cache_def Let_def split: if_splits)
    with inv show ?thesis by simp
  next
    case False
    with ps have "is_cache h ?c" "cached h ?c k = None"
      by (simp_all add: is_cache_def cached_def has_prop_def)
    from hasMany_miss [OF t this] call
    have "hasMany_resolve h s k (option_flag options ''ids'') = Inr (v, h1)" by simp
    then obtain im' rel h' where im': "lookup h (s_internalModel s) = Some (InternalModel im')"
      and rel: "map_of (im_relationships im') k = Some rel" and kd: "kind rel = ''hasMany''"
      and res: "hasMany_result h rel (option_flag options ''ids'') = Inr (v, h')"
      and put: "cache_put h' ?c k v = Inr (v, h1)"
      by (rule hasMany_resolve_Inr) (simp add: hasMany_cache_def)
    from im im' have "im' = im" by simp
    with rel kd have k: "relationship_kind im k = Some ''hasMany''" by (simp add: relationship_kind_def)
    from cs have d: "distinct (caches_of s)" by (simp add: caches_sound_def)
    have c: "?c = s_hasManyRelationships s \<or> ?c = s_hasManyIds s" by (simp add: hasMany_cache_def)
    with d have nb: "\<not> (?c = s_belongsToRelationships s \<or> ?c = s_belongsToIds s)"
      by (auto simp: caches_of_def)
    from hasMany_result_extends [OF res] obtain ext where "h' = h @ ext" by blast
    with put have "cache_put (h @ ext) ?c k v = Inr (v, h1)" by simp
    from inv_after_put [OF t im cs this] k nb show ?thesis by blast
  qed
qed

lemma elsewhere_inv:
  assumes inv: "snapshot_inv h this"
      and t: "lookup h this = Some (SnapshotObj s)"
      and im: "lookup h (s_internalModel s) = Some (InternalModel im)"
      and ag: "agree_on (this # caches_of s) h h'"
      and im': "lookup h' (s_internalModel s) = Some (InternalModel im')"
      and same: "\<forall>k. relationship_kind im' k = relationship_kind im k"
  shows "snapshot_inv h' this"
proof -
  from inv t im have cs: "caches_sound h s im" by (auto simp: snapshot_inv_iff)
  from ag t have t': "lookup h' this = Some (SnapshotObj s)" by (simp add: agree_on_def)
  from ag have "\<forall>a \<in> set (caches_of s). lookup h' a = lookup h a"
    by (simp add: agree_on_def list_all_iff)
  with cs same have "caches_sound h' s im'"
    by (auto simp: caches_sound_def caches_of_def intro: keys_resolve_agree)
  with t' im' show ?thesis by (auto simp: snapshot_inv_iff)
qed

lemma in_use_inv: "in_use h this \<Longrightarrow> snapshot_inv h this"
proof (induction rule: in_use.induct)
  case (constructed h m this h')
  then show ?case by (rule Snapshot_inv)
next
  case (called_belongsTo h this k options v h')
  then show ?case by (blast intro: belongsTo_inv)
next
  case (called_hasMany h this k options v h')
  then show ?case by (blast intro: hasMany_inv)
next
  case (elsewhere h this s im h' im')
  then show ?case by (blast intro: elsewhere_inv)
qed

lemma unknown_relationship_on_miss:
  assumes "lookup h this = Some (SnapshotObj s)"
      and "lookup h (s_internalModel s) = Some (InternalModel im)"
  shows "is_cache h (belongsTo_cache s options)
            \<Longrightarrow> cached h (belongsTo_cache s options) keyName = None
            \<Longrightarrow> relationship_kind im keyName \<noteq> Some ''belongsTo''
            \<Longrightarrow> belongsTo h this keyName options = Inl (NoBelongsToNamed (s_record s) keyName)"
    and "is_cache h (hasMany_cache s options)
            \<Longrightarrow> cached h (hasMany_cache s options) keyName = None
            \<Longrightarrow> relationship_kind im keyName \<noteq> Some ''hasMany''
            \<Longrightarrow> hasMany h this keyName options = Inl (NoHasManyNamed (s_record s) keyName)"
proof -
  assume ic: "is_cache h (belongsTo_cache s options)"
    and miss: "cached h (belongsTo_cache s options) keyName = None"
    and no: "relationship_kind im keyName \<noteq> Some ''belongsTo''"
  from no assms(2)
  have "belongsTo_resolve h s keyName (option_flag options ''id'') = Inl (NoBelongsToNamed (s_record s) keyName)"
    by (simp add: belongsTo_resolve_def relationship_kind_def split: option.splits)
  with belongsTo_miss [OF assms(1) ic miss]
  show "belongsTo h this keyName options = Inl (NoBelongsToNamed (s_record s) keyName)" by simp
next
  assume ic: "is_cache h (hasMany_cache s options)"
    and miss: "cached h (hasMany_cache s options) keyName = None"
    and no: "relationship_kind im keyName \<noteq> Some ''hasMany''"
  from no assms(2)
  have "hasMany_resolve h s keyName (option_flag options ''ids'') = Inl (NoHasManyNamed (s_record s) keyName)"
    by (simp add: hasMany_resolve_def relationship_kind_def split: option.splits)
  with hasMany_miss [OF assms(1) ic miss]
  show "hasMany h this keyName options = Inl (NoHasManyNamed (s_record s) keyName)" by simp
qed

text \<open>
  C5. On every snapshot in use, a call of \<^verbatim>\<open>belongsTo\<close> with a name that does not
  resolve to a belongsTo relationship of the live record (no relationship of that name,
  or a hasMany), and a call of \<^verbatim>\<open>hasMany\<close> with a name that does not resolve to a
  hasMany relationship, fail with the unknown-relationship error, as the result of the
  call itself.
\<close>

theorem unknown_relationship_fails:
  assumes "in_use h this"
      and "lookup h this = Some (SnapshotObj s)"
      and "lookup h (s_internalModel s) = Some (InternalModel im)"
  shows "(relationship_kind im keyName \<noteq> Some ''belongsTo''
            \<longrightarrow> belongsTo h this keyName options = Inl (NoBelongsToNamed (s_record s) keyName)
                \<and> UnknownRelationshipError (NoBelongsToNamed (s_record s) keyName))
       \<and> (relationship_kind im keyName \<noteq> Some ''hasMany''
            \<longrightarrow> hasMany h this keyName options = Inl (NoHasManyNamed (s_record s) keyName)
                \<and> UnknownRelationshipError (NoHasManyNamed (s_record s) keyName))"
proof -
  from in_use_inv [OF assms(1)] assms(2,3) have cs: "caches_sound h s im"
    by (auto simp: snapshot_inv_iff)
  then have b: "keys_resolve h (belongsTo_cache s options) im ''belongsTo''"
    and m: "keys_resolve h (hasMany_cache s options) im ''hasMany''"
    by (simp_all add: caches_sound_def belongsTo_cache_def hasMany_cache_def)
  show ?thesis
  proof (intro conjI impI)
    assume no: "relationship_kind im keyName \<noteq> Some ''belongsTo''"
    from keys_resolve_miss [OF b no] unknown_relationship_on_miss(1) [OF assms(2,3) _ _ no]
    show "belongsTo h this keyName options = Inl (NoBelongsToNamed (s_record s) keyName)" by blast
  next
    assume no: "relationship_kind im keyName \<noteq> Some ''hasMany''"
    from keys_resolve_miss [OF m no] unknown_relationship_on_miss(2) [OF assms(2,3) _ _ no]
    show "hasMany h this keyName options = Inl (NoHasManyNamed (s_record s) keyName)" by blast
  qed simp_all
qed

theorem unknown_relationship_fails_witness:
  "hasMany
     (store (snd (projr (belongsTo example_snapshot_store example_snapshot ''author'' None))) 2
        (InternalModel example_post_loaded))
     example_snapshot ''author'' None
   = Inl (NoHasManyNamed 1 ''author'')
   \<and> belongsTo
     (store (snd (projr (belongsTo example_snapshot_store example_snapshot ''author'' None))) 2
        (InternalModel example_post_loaded))
     example_snapshot ''publisher'' (Some [(''id'', Bool True)])
   = Inl (NoBelongsToNamed 1 ''publisher'')"
proof -
  let ?h = example_snapshot_store
  let ?snap = example_snapshot
  let ?s = example_fields
  let ?b1 = "snd (projr (belongsTo ?h ?snap ''author'' None))"
  let ?h2 = "store ?b1 2 (InternalModel example_post_loaded)"
  have 0: "Snapshot example_store 2 = Inr (?snap, ?h)" by code_simp
  have 1: "belongsTo ?h ?snap ''author'' None = Inr (Ref 23, ?b1)" by code_simp
  have s: "lookup ?b1 ?snap = Some (SnapshotObj ?s)" by code_simp
  have im: "lookup ?b1 (s_internalModel ?s) = Some (InternalModel example_post)" by code_simp
  have ag: "agree_on (?snap # caches_of ?s) ?b1 ?h2" by code_simp
  have im2: "lookup ?h2 (s_internalModel ?s) = Some (InternalModel example_post_loaded)" by code_simp
  have same: "\<forall>k. relationship_kind example_post_loaded k = relationship_kind example_post k"
    by (simp add: relationship_kind_def example_post_loaded_def example_post_def)
  have s2: "lookup ?h2 ?snap = Some (SnapshotObj ?s)" by code_simp
  have r: "s_record ?s = 1" by code_simp
  have u: "in_use ?h2 ?snap"
    by (rule in_use.elsewhere [OF in_use.called_belongsTo [OF in_use.constructed [OF 0] 1] s im ag im2 same])
  have na: "relationship_kind example_post_loaded ''author'' \<noteq> Some ''hasMany''" by code_simp
  have np: "relationship_kind example_post_loaded ''publisher'' \<noteq> Some ''belongsTo''" by code_simp
  from unknown_relationship_fails [OF u s2 im2, of "''author''" None] na r
  have a: "hasMany ?h2 ?snap ''author'' None = Inl (NoHasManyNamed 1 ''author'')" by simp
  from unknown_relationship_fails [OF u s2 im2, of "''publisher''" "Some [(''id'', Bool True)]"] np r
  have b: "belongsTo ?h2 ?snap ''publisher'' (Some [(''id'', Bool True)]) = Inl (NoBelongsToNamed 1 ''publisher'')"
    by simp
  from a b show ?thesis by simp
qed

lemma has_record_append: "has_record h a \<Longrightarrow> has_record (h @ ext) a"
  by (auto simp: has_record_def lookup_append_Some split: option.splits obj.splits)

lemma has_recordD:
  "has_record h a \<Longrightarrow> \<exists>m r. lookup h a = Some (InternalModel m) \<and> lookup h (im_record m) = Some (Record r)"
proof -
  assume hr: "has_record h a"
  then obtain m where m: "lookup h a = Some (InternalModel m)"
    by (cases "lookup h a") (auto simp: has_record_def split: obj.splits)
  with hr obtain r where "lookup h (im_record m) = Some (Record r)"
    by (cases "lookup h (im_record m)") (auto simp: has_record_def split: obj.splits)
  with m show ?thesis by blast
qed

lemma alive_append: "has_record h a \<Longrightarrow> alive (h @ ext) a = alive h a"
  by (auto simp: alive_def dest!: has_recordD simp: lookup_append_Some)

lemma id_of_append: "has_record h a \<Longrightarrow> id_of (h @ ext) a = id_of h a"
  by (auto simp: id_of_def dest!: has_recordD simp: lookup_append_Some)

lemma filter_alive_append:
  "list_all (has_record h) ms \<Longrightarrow> filter (alive (h @ ext)) ms = filter (alive h) ms"
  by (induction ms) (simp_all add: alive_append)

lemma hasMany_forEach_ids:
  "list_all (has_record h) ms \<Longrightarrow>
     hasMany_forEach ms True h acc = Inr (acc @ map (id_of h) (filter (alive h) ms), h)"
proof (induction ms arbitrary: acc)
  case Nil
  then show ?case by simp
next
  case (Cons a ms)
  from Cons.prems have a: "has_record h a" and rest: "list_all (has_record h) ms" by simp_all
  from has_recordD [OF a] obtain m where m: "lookup h a = Some (InternalModel m)" by blast
  show ?case
    using m Cons.IH [OF rest] by (simp add: alive_def id_of_def)
qed

lemma child_of_append: "child_of h v = Some x \<Longrightarrow> child_of (h @ ext) v = Some x"
  by (auto simp: child_of_def snapshot_at_def lookup_append_Some split: val.splits option.splits obj.splits)

lemma Snapshot_child_of:
  assumes "Snapshot h a = Inr (sn, h1)"
  shows "child_of h1 (Ref sn) = Some (a, id_of h a) \<and> length h \<le> sn \<and> (\<exists>ext. h1 = h @ ext)"
proof -
  from Snapshot_facts [OF assms] obtain im r s and ext :: heap where
    "lookup h a = Some (InternalModel im)" "h1 = h @ ext" "length h \<le> sn"
    "lookup h1 sn = Some (SnapshotObj s)" "s_id s = im_id im" "s_internalModel s = a"
    by blast
  then show ?thesis by (auto simp: child_of_def snapshot_at_def id_of_def)
qed

lemma hasMany_forEach_full:
  "list_all (has_record h) ms \<Longrightarrow>
     \<exists>res h'. hasMany_forEach ms False h acc = Inr (acc @ res, h')
       \<and> (\<exists>ext. h' = h @ ext)
       \<and> map (child_of h') res = map (\<lambda>a. Some (a, id_of h a)) (filter (alive h) ms)
       \<and> list_all (\<lambda>v. \<exists>sn. v = Ref sn \<and> length h \<le> sn) res"
proof (induction ms arbitrary: h acc)
  case Nil
  then show ?case by simp
next
  case (Cons a ms)
  from Cons.prems have a: "has_record h a" and rest: "list_all (has_record h) ms" by simp_all
  from has_recordD [OF a] obtain m r where m: "lookup h a = Some (InternalModel m)"
    and r: "lookup h (im_record m) = Some (Record r)" by blast
  show ?case
  proof (cases "im_isDeleted m")
    case True
    from Cons.IH [OF rest, of acc] obtain res h' where
      "hasMany_forEach ms False h acc = Inr (acc @ res, h')" "\<exists>ext. h' = h @ ext"
      "map (child_of h') res = map (\<lambda>a. Some (a, id_of h a)) (filter (alive h) ms)"
      "list_all (\<lambda>v. \<exists>sn. v = Ref sn \<and> length h \<le> sn) res" by blast
    moreover from m True have "\<not> alive h a" by (simp add: alive_def)
    moreover from m True have "hasMany_forEach (a # ms) False h acc = hasMany_forEach ms False h acc"
      by simp
    ultimately show ?thesis by simp
  next
    case False
    from Snapshot_succeeds [OF m r] obtain sn h1 where sn: "Snapshot h a = Inr (sn, h1)" by blast
    from Snapshot_child_of [OF sn] obtain ext1 where c: "child_of h1 (Ref sn) = Some (a, id_of h a)"
      and ge: "length h \<le> sn" and h1: "h1 = h @ ext1" by blast
    from rest have rest1: "list_all (has_record h1) ms"
      by (simp add: h1 list_all_iff has_record_append)
    from Cons.IH [OF rest1, of "acc @ [Ref sn]"] obtain res h' ext2 where
      run: "hasMany_forEach ms False h1 ((acc @ [Ref sn])) = Inr ((acc @ [Ref sn]) @ res, h')"
      and h': "h' = h1 @ ext2"
      and ch: "map (child_of h') res = map (\<lambda>a. Some (a, id_of h1 a)) (filter (alive h1) ms)"
      and fr: "list_all (\<lambda>v. \<exists>sn. v = Ref sn \<and> length h1 \<le> sn) res" by blast
    have ids: "map (\<lambda>a. Some (a, id_of h1 a)) (filter (alive h1) ms)
        = map (\<lambda>a. Some (a, id_of h a)) (filter (alive h) ms)"
      using rest by (simp add: h1 filter_alive_append list_all_iff id_of_append)
    have call: "hasMany_forEach (a # ms) False h acc = Inr (acc @ (Ref sn # res), h')"
      using m False sn run by (simp add: createSnapshot_def)
    have ext: "\<exists>ext. h' = h @ ext" using h1 h' by simp
    have c': "child_of h' (Ref sn) = Some (a, id_of h a)"
      using c h' by (simp add: child_of_append)
    have al: "alive h a" using m False by (simp add: alive_def)
    have fr': "list_all (\<lambda>v. \<exists>sn. v = Ref sn \<and> length h \<le> sn) (Ref sn # res)"
      using fr ge h1 by (auto simp: list_all_iff)
    from call ext c' ch ids al fr' show ?thesis
      by (intro exI [of _ "Ref sn # res"] exI [of _ h']) simp
  qed
qed

lemma hasMany_result_known:
  assumes hd: "hasData rel" and ms: "list_all (has_record h) (members rel)"
  shows "\<exists>a h' xs. hasMany_result h rel ids = Inr (Ref a, h')
           \<and> length h \<le> a \<and> lookup h' a = Some (Array xs)
           \<and> (ids \<longrightarrow> xs = map (id_of h) (filter (alive h) (members rel)))
           \<and> (\<not> ids \<longrightarrow> map (child_of h') xs
                  = map (\<lambda>m. Some (m, id_of h m)) (filter (alive h) (members rel))
                \<and> list_all (\<lambda>v. \<exists>sn. v = Ref sn \<and> length h \<le> sn) xs)"
proof (cases ids)
  case True
  let ?xs = "map (id_of h) (filter (alive h) (members rel))"
  have "hasMany_result h rel ids = Inr (Ref (length h), h @ [Array ?xs])"
    using hd True hasMany_forEach_ids [OF ms, of "[]"] by (simp add: hasMany_result_def alloc_def)
  moreover have "lookup (h @ [Array ?xs]) (length h) = Some (Array ?xs)"
    by (simp add: lookup_def)
  ultimately show ?thesis using True by simp
next
  case False
  from hasMany_forEach_full [OF ms, of "[]"] obtain res h' ext where
    run: "hasMany_forEach (members rel) False h [] = Inr (res, h')"
    and h': "h' = h @ ext"
    and ch: "map (child_of h') res = map (\<lambda>m. Some (m, id_of h m)) (filter (alive h) (members rel))"
    and fr: "list_all (\<lambda>v. \<exists>sn. v = Ref sn \<and> length h \<le> sn) res" by auto
  have call: "hasMany_result h rel ids = Inr (Ref (length h'), h' @ [Array res])"
    using hd False run by (simp add: hasMany_result_def alloc_def)
  have l: "lookup (h' @ [Array res]) (length h') = Some (Array res)"
    by (simp add: lookup_def)
  have "map (child_of (h' @ [Array res])) res = map (child_of h') res"
  proof (rule map_cong [OF refl])
    fix v assume "v \<in> set res"
    with ch have "child_of h' v \<in> set (map (\<lambda>m. Some (m, id_of h m)) (filter (alive h) (members rel)))"
      by (metis image_eqI list.set_map)
    then obtain x where "child_of h' v = Some x" by auto
    then show "child_of (h' @ [Array res]) v = child_of h' v" by (simp add: child_of_append)
  qed
  with ch call l fr False h' show ?thesis by simp
qed

lemma hasMany_known:
  assumes t: "lookup h this = Some (SnapshotObj s)"
      and ic: "is_cache h (hasMany_cache s options)"
      and miss: "cached h (hasMany_cache s options) k = None"
      and im: "lookup h (s_internalModel s) = Some (InternalModel im)"
      and rel: "map_of (im_relationships im) k = Some rel"
      and kd: "kind rel = ''hasMany''"
      and hd: "hasData rel"
      and ms: "list_all (has_record h) (members rel)"
  shows "\<exists>res h1 xs. hasMany h this k options = Inr (res, h1)
           \<and> array_at h1 res = Some xs
           \<and> (option_flag options ''ids'' \<longrightarrow> xs = map (id_of h) (filter (alive h) (members rel)))
           \<and> (\<not> option_flag options ''ids'' \<longrightarrow>
                map (child_of h1) xs = map (\<lambda>m. Some (m, id_of h m)) (filter (alive h) (members rel)))"
proof -
  let ?c = "hasMany_cache s options" and ?ids = "option_flag options ''ids''"
  from hasMany_result_known [OF hd ms, of ?ids] obtain a h' xs where
    res: "hasMany_result h rel ?ids = Inr (Ref a, h')" and ge: "length h \<le> a"
    and arr: "lookup h' a = Some (Array xs)"
    and ids: "?ids \<longrightarrow> xs = map (id_of h) (filter (alive h) (members rel))"
    and full: "\<not> ?ids \<longrightarrow> map (child_of h') xs
                  = map (\<lambda>m. Some (m, id_of h m)) (filter (alive h) (members rel))
                \<and> list_all (\<lambda>v. \<exists>sn. v = Ref sn \<and> length h \<le> sn) xs" by blast
  from hasMany_resolves [OF t ic miss im rel kd res] obtain h1 where
    call: "hasMany h this k options = Inr (Ref a, h1)"
    and fr: "\<forall>b. b \<noteq> ?c \<longrightarrow> lookup h1 b = lookup h' b" by blast
  from is_cacheD [OF ic miss] obtain ps where "lookup h ?c = Some (Plain ps)" by blast
  then have clt: "?c < length h" by (rule lookup_Some_less)
  with ge fr arr have "array_at h1 (Ref a) = Some xs" by (simp add: array_at_def)
  moreover have "map (child_of h1) xs = map (child_of h') xs" if "\<not> ?ids"
  proof (rule map_cong [OF refl])
    fix v assume "v \<in> set xs"
    with full that obtain sn where "v = Ref sn" "length h \<le> sn" by (auto simp: list_all_iff)
    with clt fr show "child_of h1 v = child_of h' v" by (simp add: child_of_def snapshot_at_def)
  qed
  ultimately show ?thesis using call ids full by auto
qed

lemma belongsTo_result_deleted:
  assumes "hasData rel" "inverseRecord rel = Some a" "lookup h a = Some (InternalModel m)" "im_isDeleted m"
  shows "belongsTo_result h rel id' = Inr (Null, h)"
  using assms by (simp add: belongsTo_result_def)

text \<open>
  C4. On first resolution of a relationship with \<^verbatim>\<open>hasData\<close> true: a belongsTo whose
  related record is present but deleted resolves to \<^verbatim>\<open>null\<close>, which is no snapshot; a
  hasMany resolves to an array that holds, in relationship order, exactly the members
  that are not deleted, as their ids in identifier mode and as child snapshots of them
  in full mode.
\<close>

theorem deleted_records_are_excluded:
  assumes "lookup h this = Some (SnapshotObj s)"
      and "lookup h (s_internalModel s) = Some (InternalModel im)"
      and "map_of (im_relationships im) keyName = Some rel"
      and "hasData rel"
  shows "(kind rel = ''belongsTo''
            \<longrightarrow> is_cache h (belongsTo_cache s options)
            \<longrightarrow> cached h (belongsTo_cache s options) keyName = None
            \<longrightarrow> (\<exists>a m. inverseRecord rel = Some a \<and> lookup h a = Some (InternalModel m) \<and> im_isDeleted m)
            \<longrightarrow> (\<exists>h1. belongsTo h this keyName options = Inr (Null, h1) \<and> snapshot_at h1 Null = None))
       \<and> (kind rel = ''hasMany''
            \<longrightarrow> is_cache h (hasMany_cache s options)
            \<longrightarrow> cached h (hasMany_cache s options) keyName = None
            \<longrightarrow> list_all (has_record h) (members rel)
            \<longrightarrow> (\<exists>res h1 xs. hasMany h this keyName options = Inr (res, h1)
                   \<and> array_at h1 res = Some xs
                   \<and> (option_flag options ''ids'' \<longrightarrow>
                        xs = map (id_of h) (filter (alive h) (members rel)))
                   \<and> (\<not> option_flag options ''ids'' \<longrightarrow>
                        map (child_of h1) xs
                          = map (\<lambda>m. Some (m, id_of h m)) (filter (alive h) (members rel)))))"
proof (intro conjI impI)
  assume kd: "kind rel = ''belongsTo''" and ic: "is_cache h (belongsTo_cache s options)"
    and miss: "cached h (belongsTo_cache s options) keyName = None"
    and del: "\<exists>a m. inverseRecord rel = Some a \<and> lookup h a = Some (InternalModel m) \<and> im_isDeleted m"
  from del obtain a m where "inverseRecord rel = Some a" "lookup h a = Some (InternalModel m)" "im_isDeleted m"
    by blast
  from belongsTo_result_deleted [OF assms(4) this]
  have "belongsTo_result h rel (option_flag options ''id'') = Inr (Null, h)" .
  from belongsTo_resolves [OF assms(1) ic miss assms(2,3) kd this]
  obtain h1 where "belongsTo h this keyName options = Inr (Null, h1)" by blast
  then show "\<exists>h1. belongsTo h this keyName options = Inr (Null, h1) \<and> snapshot_at h1 Null = None"
    by (auto simp: snapshot_at_def)
next
  assume kd: "kind rel = ''hasMany''" and ic: "is_cache h (hasMany_cache s options)"
    and miss: "cached h (hasMany_cache s options) keyName = None"
    and ms: "list_all (has_record h) (members rel)"
  from hasMany_known [OF assms(1) ic miss assms(2,3) kd assms(4) ms]
  show "\<exists>res h1 xs. hasMany h this keyName options = Inr (res, h1)
                   \<and> array_at h1 res = Some xs
                   \<and> (option_flag options ''ids'' \<longrightarrow>
                        xs = map (id_of h) (filter (alive h) (members rel)))
                   \<and> (\<not> option_flag options ''ids'' \<longrightarrow>
                        map (child_of h1) xs
                          = map (\<lambda>m. Some (m, id_of h m)) (filter (alive h) (members rel)))" .
qed

theorem deleted_records_are_excluded_witness:
  "fst (projr (belongsTo example_snapshot_store example_snapshot ''reviewer'' None)) = Null
   \<and> array_at
        (snd (projr (hasMany example_snapshot_store example_snapshot ''comments'' (Some [(''ids'', Bool True)]))))
        (fst (projr (hasMany example_snapshot_store example_snapshot ''comments'' (Some [(''ids'', Bool True)]))))
      = Some [Str ''2'']
   \<and> map (child_of (snd (projr (hasMany example_snapshot_store example_snapshot ''comments'' None))))
        (the (array_at
           (snd (projr (hasMany example_snapshot_store example_snapshot ''comments'' None)))
           (fst (projr (hasMany example_snapshot_store example_snapshot ''comments'' None)))))
      = [Some (6, Str ''2'')]"
proof -
  let ?h = example_snapshot_store
  let ?snap = example_snapshot
  let ?s = example_fields
  let ?o = "Some [(''ids'', Bool True)]"
  let ?reviewer = "\<lparr> kind = ''belongsTo'', hasData = True, inverseRecord = Some 8, members = [] \<rparr>"
  let ?comments = "\<lparr> kind = ''hasMany'', hasData = True, inverseRecord = None, members = [6, 8] \<rparr>"
  have s: "lookup ?h ?snap = Some (SnapshotObj ?s)" by code_simp
  have im: "lookup ?h (s_internalModel ?s) = Some (InternalModel example_post)" by code_simp
  have r: "map_of (im_relationships example_post) ''reviewer'' = Some ?reviewer" by code_simp
  have c: "map_of (im_relationships example_post) ''comments'' = Some ?comments" by code_simp
  have hr: "hasData ?reviewer" by simp
  have hc: "hasData ?comments" by simp
  have kr: "kind ?reviewer = ''belongsTo''" by simp
  have kc: "kind ?comments = ''hasMany''" by simp
  have cr: "is_cache ?h (belongsTo_cache ?s None)" "cached ?h (belongsTo_cache ?s None) ''reviewer'' = None"
    by code_simp+
  have ci: "is_cache ?h (hasMany_cache ?s ?o)" "cached ?h (hasMany_cache ?s ?o) ''comments'' = None"
    by code_simp+
  have cf: "is_cache ?h (hasMany_cache ?s None)" "cached ?h (hasMany_cache ?s None) ''comments'' = None"
    by code_simp+
  have del: "\<exists>a m. inverseRecord ?reviewer = Some a \<and> lookup ?h a = Some (InternalModel m) \<and> im_isDeleted m"
  proof (intro exI conjI)
    show "inverseRecord ?reviewer = Some 8" by simp
    show "lookup ?h 8 = Some (InternalModel (example_member ''3'' ''comment'' 7 True))" by code_simp
    show "im_isDeleted (example_member ''3'' ''comment'' 7 True)" by code_simp
  qed
  have ms: "list_all (has_record ?h) (members ?comments)" by code_simp
  have oi: "option_flag ?o ''ids''" by code_simp
  have on: "\<not> option_flag None ''ids''" by code_simp
  have ids: "map (id_of ?h) (filter (alive ?h) (members ?comments)) = [Str ''2'']" by code_simp
  have full: "map (\<lambda>m. Some (m, id_of ?h m)) (filter (alive ?h) (members ?comments)) = [Some (6, Str ''2'')]"
    by code_simp
  from deleted_records_are_excluded [OF s im r hr, of None] kr cr del
  obtain h1 where "belongsTo ?h ?snap ''reviewer'' None = Inr (Null, h1)" by blast
  then have 1: "fst (projr (belongsTo ?h ?snap ''reviewer'' None)) = Null" by simp
  from deleted_records_are_excluded [OF s im c hc, of ?o] kc ci ms oi ids
  obtain res h1 where "hasMany ?h ?snap ''comments'' ?o = Inr (res, h1)"
    and "array_at h1 res = Some [Str ''2'']" by auto
  then have 2: "array_at (snd (projr (hasMany ?h ?snap ''comments'' ?o)))
      (fst (projr (hasMany ?h ?snap ''comments'' ?o))) = Some [Str ''2'']" by simp
  from deleted_records_are_excluded [OF s im c hc, of None] kc cf ms on full
  obtain res h1 xs where "hasMany ?h ?snap ''comments'' None = Inr (res, h1)"
    and "array_at h1 res = Some xs" and "map (child_of h1) xs = [Some (6, Str ''2'')]" by auto
  then have 3: "map (child_of (snd (projr (hasMany ?h ?snap ''comments'' None))))
        (the (array_at (snd (projr (hasMany ?h ?snap ''comments'' None)))
           (fst (projr (hasMany ?h ?snap ''comments'' None))))) = [Some (6, Str ''2'')]" by simp
  from 1 2 3 show ?thesis by simp
qed

text \<open>
  C3. On first resolution of a relationship with \<^verbatim>\<open>hasData\<close> false, \<^verbatim>\<open>belongsTo\<close>
  and \<^verbatim>\<open>hasMany\<close> return \<^verbatim>\<open>undefined\<close>, which is neither \<^verbatim>\<open>null\<close> nor an array;
  a hasMany with \<^verbatim>\<open>hasData\<close> true and no member that is not deleted returns an empty
  array, which is not \<^verbatim>\<open>undefined\<close>.
\<close>

theorem unknown_differs_from_null_and_empty:
  assumes "lookup h this = Some (SnapshotObj s)"
      and "lookup h (s_internalModel s) = Some (InternalModel im)"
      and "map_of (im_relationships im) keyName = Some rel"
  shows "(kind rel = ''belongsTo'' \<longrightarrow> \<not> hasData rel
            \<longrightarrow> is_cache h (belongsTo_cache s options)
            \<longrightarrow> cached h (belongsTo_cache s options) keyName = None
            \<longrightarrow> (\<exists>h1. belongsTo h this keyName options = Inr (Undefined, h1)
                   \<and> Undefined \<noteq> Null \<and> array_at h1 Undefined = None))
       \<and> (kind rel = ''hasMany'' \<longrightarrow> \<not> hasData rel
            \<longrightarrow> is_cache h (hasMany_cache s options)
            \<longrightarrow> cached h (hasMany_cache s options) keyName = None
            \<longrightarrow> (\<exists>h1. hasMany h this keyName options = Inr (Undefined, h1)
                   \<and> Undefined \<noteq> Null \<and> array_at h1 Undefined = None))
       \<and> (kind rel = ''hasMany'' \<longrightarrow> hasData rel
            \<longrightarrow> is_cache h (hasMany_cache s options)
            \<longrightarrow> cached h (hasMany_cache s options) keyName = None
            \<longrightarrow> list_all (has_record h) (members rel)
            \<longrightarrow> filter (alive h) (members rel) = []
            \<longrightarrow> (\<exists>res h1. hasMany h this keyName options = Inr (res, h1)
                   \<and> res \<noteq> Undefined \<and> array_at h1 res = Some []))"
proof (intro conjI impI)
  assume kd: "kind rel = ''belongsTo''" and nd: "\<not> hasData rel"
    and ic: "is_cache h (belongsTo_cache s options)"
    and miss: "cached h (belongsTo_cache s options) keyName = None"
  from belongsTo_resolves [OF assms(1) ic miss assms(2,3) kd belongsTo_result_unknown [OF nd]]
  obtain h1 where "belongsTo h this keyName options = Inr (Undefined, h1)" by blast
  then show "\<exists>h1. belongsTo h this keyName options = Inr (Undefined, h1)
                   \<and> Undefined \<noteq> Null \<and> array_at h1 Undefined = None"
    by (auto simp: array_at_def)
next
  assume kd: "kind rel = ''hasMany''" and nd: "\<not> hasData rel"
    and ic: "is_cache h (hasMany_cache s options)"
    and miss: "cached h (hasMany_cache s options) keyName = None"
  from hasMany_resolves [OF assms(1) ic miss assms(2,3) kd hasMany_result_unknown [OF nd]]
  obtain h1 where "hasMany h this keyName options = Inr (Undefined, h1)" by blast
  then show "\<exists>h1. hasMany h this keyName options = Inr (Undefined, h1)
                   \<and> Undefined \<noteq> Null \<and> array_at h1 Undefined = None"
    by (auto simp: array_at_def)
next
  assume kd: "kind rel = ''hasMany''" and hd: "hasData rel"
    and ic: "is_cache h (hasMany_cache s options)"
    and miss: "cached h (hasMany_cache s options) keyName = None"
    and ms: "list_all (has_record h) (members rel)"
    and none: "filter (alive h) (members rel) = []"
  from hasMany_known [OF assms(1) ic miss assms(2,3) kd hd ms] obtain res h1 xs where
    call: "hasMany h this keyName options = Inr (res, h1)" and arr: "array_at h1 res = Some xs"
    and ids: "option_flag options ''ids'' \<longrightarrow> xs = map (id_of h) (filter (alive h) (members rel))"
    and full: "\<not> option_flag options ''ids'' \<longrightarrow>
                map (child_of h1) xs = map (\<lambda>m. Some (m, id_of h m)) (filter (alive h) (members rel))"
    by blast
  from ids full none have "xs = []" by (cases "option_flag options ''ids''") simp_all
  with arr have "array_at h1 res = Some []" by simp
  moreover from this have "res \<noteq> Undefined" by (auto simp: array_at_def)
  ultimately show "\<exists>res h1. hasMany h this keyName options = Inr (res, h1)
                   \<and> res \<noteq> Undefined \<and> array_at h1 res = Some []"
    using call by blast
qed

theorem unknown_differs_from_null_and_empty_witness:
  "fst (projr (belongsTo example_snapshot_store example_snapshot ''editor'' None)) = Undefined
   \<and> fst (projr (hasMany example_snapshot_store example_snapshot ''likes'' None)) = Undefined
   \<and> array_at
        (snd (projr (hasMany example_snapshot_store example_snapshot ''drafts'' None)))
        (fst (projr (hasMany example_snapshot_store example_snapshot ''drafts'' None)))
      = Some []"
proof -
  let ?h = example_snapshot_store
  let ?snap = example_snapshot
  let ?s = example_fields
  let ?editor = "\<lparr> kind = ''belongsTo'', hasData = False, inverseRecord = None, members = [] \<rparr>"
  let ?likes = "\<lparr> kind = ''hasMany'', hasData = False, inverseRecord = None, members = [] \<rparr>"
  let ?drafts = "\<lparr> kind = ''hasMany'', hasData = True, inverseRecord = None, members = [8] \<rparr>"
  have s: "lookup ?h ?snap = Some (SnapshotObj ?s)" by code_simp
  have im: "lookup ?h (s_internalModel ?s) = Some (InternalModel example_post)" by code_simp
  have e: "map_of (im_relationships example_post) ''editor'' = Some ?editor" by code_simp
  have l: "map_of (im_relationships example_post) ''likes'' = Some ?likes" by code_simp
  have d: "map_of (im_relationships example_post) ''drafts'' = Some ?drafts" by code_simp
  have ce: "is_cache ?h (belongsTo_cache ?s None)" "cached ?h (belongsTo_cache ?s None) ''editor'' = None"
    by code_simp+
  have cl: "is_cache ?h (hasMany_cache ?s None)" "cached ?h (hasMany_cache ?s None) ''likes'' = None"
    by code_simp+
  have cd: "cached ?h (hasMany_cache ?s None) ''drafts'' = None" by code_simp
  have ms: "list_all (has_record ?h) (members ?drafts)" by code_simp
  have none: "filter (alive ?h) (members ?drafts) = []" by code_simp
  from unknown_differs_from_null_and_empty [OF s im e, of None] ce
  obtain h1 where "belongsTo ?h ?snap ''editor'' None = Inr (Undefined, h1)" by auto
  then have 1: "fst (projr (belongsTo ?h ?snap ''editor'' None)) = Undefined" by simp
  from unknown_differs_from_null_and_empty [OF s im l, of None] cl
  obtain h1 where "hasMany ?h ?snap ''likes'' None = Inr (Undefined, h1)" by auto
  then have 2: "fst (projr (hasMany ?h ?snap ''likes'' None)) = Undefined" by simp
  from unknown_differs_from_null_and_empty [OF s im d, of None] cl(1) cd ms none
  obtain res h1 where "hasMany ?h ?snap ''drafts'' None = Inr (res, h1)" and "array_at h1 res = Some []"
    by auto
  then have 3: "array_at (snd (projr (hasMany ?h ?snap ''drafts'' None)))
        (fst (projr (hasMany ?h ?snap ''drafts'' None))) = Some []" by simp
  from 1 2 3 show ?thesis by simp
qed

text \<open>
  C7. On first resolution of a belongsTo with \<^verbatim>\<open>hasData\<close> true whose related record
  is present and not deleted: in identifier mode the result is the id of the related
  record; in full mode it is a reference to a snapshot that the constructor has just
  built from the related record, at an address the store did not have before, and the id
  of that snapshot is the id of the related record.
\<close>

theorem belongsTo_of_present_related_record:
  assumes "lookup h this = Some (SnapshotObj s)"
      and "lookup h (s_internalModel s) = Some (InternalModel im)"
      and "map_of (im_relationships im) keyName = Some rel"
      and "kind rel = ''belongsTo''"
      and "hasData rel"
      and "inverseRecord rel = Some related"
      and "lookup h related = Some (InternalModel m)"
      and "\<not> im_isDeleted m"
      and "is_cache h (belongsTo_cache s options)"
      and "cached h (belongsTo_cache s options) keyName = None"
  shows "(option_flag options ''id''
            \<longrightarrow> (\<exists>h1. belongsTo h this keyName options = Inr (im_id m, h1)))
       \<and> (\<not> option_flag options ''id''
            \<longrightarrow> (\<exists>r. lookup h (im_record m) = Some (Record r))
            \<longrightarrow> (\<exists>child h' h1 cs.
                   Snapshot h related = Inr (child, h')
                   \<and> belongsTo h this keyName options = Inr (Ref child, h1)
                   \<and> length h \<le> child
                   \<and> snapshot_at h1 (Ref child) = Some cs
                   \<and> s_internalModel cs = related \<and> s_id cs = im_id m))"
proof (intro conjI impI)
  assume id': "option_flag options ''id''"
  with assms(5-8) have "belongsTo_result h rel (option_flag options ''id'') = Inr (im_id m, h)"
    by (simp add: belongsTo_result_def)
  from belongsTo_resolves [OF assms(1,9,10,2,3,4) this]
  show "\<exists>h1. belongsTo h this keyName options = Inr (im_id m, h1)" by blast
next
  let ?c = "belongsTo_cache s options"
  assume id': "\<not> option_flag options ''id''" and "\<exists>r. lookup h (im_record m) = Some (Record r)"
  then obtain r where r: "lookup h (im_record m) = Some (Record r)" by blast
  from Snapshot_succeeds [OF assms(7) r] obtain child h' where sn: "Snapshot h related = Inr (child, h')"
    by blast
  from Snapshot_facts [OF sn] obtain im' r' cs and ext :: heap where
    im': "lookup h related = Some (InternalModel im')" and ge: "length h \<le> child"
    and cs: "lookup h' child = Some (SnapshotObj cs)" and cid: "s_id cs = im_id im'"
    and cm: "s_internalModel cs = related" by blast
  from im' assms(7) have [simp]: "im' = m" by simp
  from id' assms(5-8) sn
  have "belongsTo_result h rel (option_flag options ''id'') = Inr (Ref child, h')"
    by (simp add: belongsTo_result_def createSnapshot_def)
  from belongsTo_resolves [OF assms(1,9,10,2,3,4) this] obtain h1 where
    call: "belongsTo h this keyName options = Inr (Ref child, h1)"
    and fr: "\<forall>b. b \<noteq> ?c \<longrightarrow> lookup h1 b = lookup h' b" by blast
  from is_cacheD [OF assms(9,10)] obtain ps where "lookup h ?c = Some (Plain ps)" by blast
  then have "?c < length h" by (rule lookup_Some_less)
  with ge fr cs have "snapshot_at h1 (Ref child) = Some cs" by (simp add: snapshot_at_def)
  with sn call ge cid cm
  show "\<exists>child h' h1 cs. Snapshot h related = Inr (child, h')
                   \<and> belongsTo h this keyName options = Inr (Ref child, h1)
                   \<and> length h \<le> child
                   \<and> snapshot_at h1 (Ref child) = Some cs
                   \<and> s_internalModel cs = related \<and> s_id cs = im_id m"
    by auto
qed

theorem belongsTo_of_present_related_record_witness:
  "fst (projr (belongsTo example_snapshot_store example_snapshot ''author'' (Some [(''id'', Bool True)])))
     = Str ''7''
   \<and> map_option s_id
        (snapshot_at (snd (projr (belongsTo example_snapshot_store example_snapshot ''author'' None)))
           (fst (projr (belongsTo example_snapshot_store example_snapshot ''author'' None))))
     = Some (Str ''7'')"
proof -
  let ?h = example_snapshot_store
  let ?snap = example_snapshot
  let ?s = example_fields
  let ?o = "Some [(''id'', Bool True)]"
  let ?author = "\<lparr> kind = ''belongsTo'', hasData = True, inverseRecord = Some 4, members = [] \<rparr>"
  let ?user = "example_member ''7'' ''user'' 3 False"
  have s: "lookup ?h ?snap = Some (SnapshotObj ?s)" by code_simp
  have im: "lookup ?h (s_internalModel ?s) = Some (InternalModel example_post)" by code_simp
  have a: "map_of (im_relationships example_post) ''author'' = Some ?author" by code_simp
  have k: "kind ?author = ''belongsTo''" by simp
  have hd: "hasData ?author" by simp
  have inv: "inverseRecord ?author = Some 4" by simp
  have u: "lookup ?h 4 = Some (InternalModel ?user)" by code_simp
  have nd: "\<not> im_isDeleted ?user" by code_simp
  have ci: "is_cache ?h (belongsTo_cache ?s ?o)" "cached ?h (belongsTo_cache ?s ?o) ''author'' = None"
    by code_simp+
  have cf: "is_cache ?h (belongsTo_cache ?s None)" "cached ?h (belongsTo_cache ?s None) ''author'' = None"
    by code_simp+
  have oi: "option_flag ?o ''id''" by code_simp
  have on: "\<not> option_flag None ''id''" by code_simp
  have r: "\<exists>r. lookup ?h (im_record ?user) = Some (Record r)"
  proof
    show "lookup ?h (im_record ?user) = Some (Record blank_record)" by code_simp
  qed
  have uid: "im_id ?user = Str ''7''" by code_simp
  from belongsTo_of_present_related_record [OF s im a k hd inv u nd ci] oi uid
  obtain h1 where "belongsTo ?h ?snap ''author'' ?o = Inr (Str ''7'', h1)" by auto
  then have 1: "fst (projr (belongsTo ?h ?snap ''author'' ?o)) = Str ''7''" by simp
  from belongsTo_of_present_related_record [OF s im a k hd inv u nd cf] on r uid
  obtain child h1 cs where "belongsTo ?h ?snap ''author'' None = Inr (Ref child, h1)"
    and "snapshot_at h1 (Ref child) = Some cs" and "s_id cs = Str ''7''" by auto
  then have 2: "map_option s_id (snapshot_at (snd (projr (belongsTo ?h ?snap ''author'' None)))
           (fst (projr (belongsTo ?h ?snap ''author'' None)))) = Some (Str ''7'')" by simp
  from 1 2 show ?thesis by simp
qed


section \<open>Copies and shared objects\<close>


lemma array_at_append:
  "array_at h v = Some xs \<Longrightarrow> array_at (h @ ext) v = Some xs"
  by (auto simp: array_at_def lookup_append_Some split: val.splits option.splits obj.splits)





lemma list_all_update:
  "P (k, v) \<Longrightarrow> list_all P al \<Longrightarrow> list_all P (AList.update k v al)"
  by (induction al) auto







lemma pair_refs_append:
  assumes "list_all (\<lambda>(k, v). \<exists>p. v = Ref p \<and> lo \<le> p \<and> array_at h v \<noteq> None) ps"
  shows "list_all (\<lambda>(k, v). \<exists>p. v = Ref p \<and> lo \<le> p \<and> array_at (h @ ext) v \<noteq> None) ps"
  unfolding list_all_iff
proof
  fix x assume x: "x \<in> set ps"
  obtain k v where kv: "x = (k, v)" by (cases x) auto
  from assms x kv obtain p xs where "v = Ref p" "lo \<le> p" "array_at h v = Some xs"
    by (auto simp: list_all_iff)
  with array_at_append [of h v xs ext] kv
  show "case x of (k, v) \<Rightarrow> \<exists>p. v = Ref p \<and> lo \<le> p \<and> array_at (h @ ext) v \<noteq> None"
    by simp
qed

lemma changed_pairs_values:
  "changed_pairs cs h diff = (diff', h') \<Longrightarrow> lo \<le> length h
     \<Longrightarrow> list_all (\<lambda>(k, v). \<exists>p. v = Ref p \<and> lo \<le> p \<and> array_at h v \<noteq> None) diff
     \<Longrightarrow> list_all (\<lambda>(k, v). \<exists>p. v = Ref p \<and> lo \<le> p \<and> array_at h' v \<noteq> None) diff'"
proof (induction cs arbitrary: h diff)
  case Nil
  then show ?case by simp
next
  case (Cons c cs)
  obtain k old new where c: "c = (k, old, new)" by (cases c) auto
  let ?h1 = "h @ [Array [old, new]]" and ?d1 = "set_prop diff k (Ref (length h))"
  from Cons.prems(1) have run: "changed_pairs cs ?h1 ?d1 = (diff', h')"
    by (simp add: c alloc_def)
  have old: "list_all (\<lambda>(k, v). \<exists>p. v = Ref p \<and> lo \<le> p \<and> array_at ?h1 v \<noteq> None) diff"
    using Cons.prems(3) by (rule pair_refs_append)
  have "array_at ?h1 (Ref (length h)) \<noteq> None" by (simp add: array_at_def lookup_def)
  with Cons.prems(2)
  have "list_all (\<lambda>(k, v). \<exists>p. v = Ref p \<and> lo \<le> p \<and> array_at ?h1 v \<noteq> None) ?d1"
    unfolding set_prop_def by (intro list_all_update old) simp
  moreover have "lo \<le> length ?h1" using Cons.prems(2) by simp
  ultimately show ?case using Cons.IH [OF run] by blast
qed

lemma Snapshot_Inr_changed:
  assumes "Snapshot h m = Inr (this, h')"
  shows "\<exists>im r diff h7 s. lookup h m = Some (InternalModel im) \<and> lookup h (im_record im) = Some (Record r)
     \<and> changed_pairs (changed r)
          (h @ [Plain (eachAttribute_capture (attributeNames r) r []), Plain [], Plain [], Plain [], Plain []]) []
        = (diff, h7)
     \<and> h' = h7 @ [Plain diff, SnapshotObj s]
     \<and> this = length h7 + 1
     \<and> s = \<lparr> s_attributes = length h,
                         s_belongsToRelationships = length h + 1,
                         s_belongsToIds = length h + 2,
                         s_hasManyRelationships = length h + 3,
                         s_hasManyIds = length h + 4,
                         s_record = im_record im,
                         s_id = im_id im,
                         s_internalModel = m,
                         s_type = im_type im,
                         s_modelName = modelName (im_type im),
                         s_changedAttributes = length h7 \<rparr>"
  using assms
  apply (simp add: Snapshot_def split: option.splits obj.splits)
  apply (simp add: alloc_def store_def record_changedAttributes_def list_update_append split: prod.splits)
  apply auto
  done

lemma Snapshot_changed:
  assumes "Snapshot h m = Inr (this, h')"
  shows "\<exists>s stored. lookup h' this = Some (SnapshotObj s)
           \<and> lookup h' (s_changedAttributes s) = Some (Plain stored)
           \<and> length h \<le> s_changedAttributes s
           \<and> list_all (\<lambda>(k, v). \<exists>p. v = Ref p \<and> length h \<le> p \<and> array_at h' v \<noteq> None) stored"
proof -
  from Snapshot_Inr_changed [OF assms] obtain r diff h7 s where
    cp: "changed_pairs (changed r)
          (h @ [Plain (eachAttribute_capture (attributeNames r) r []), Plain [], Plain [], Plain [], Plain []]) []
        = (diff, h7)"
    and h': "h' = h7 @ [Plain diff, SnapshotObj s]"
    and tdef: "this = length h7 + 1" and sc: "s_changedAttributes s = length h7"
    by force
  from changed_pairs_store [OF cp] have len: "length h \<le> length h7" by simp
  have "list_all (\<lambda>(k, v). \<exists>p. v = Ref p \<and> length h \<le> p \<and> array_at h7 v \<noteq> None) diff"
    by (rule changed_pairs_values [OF cp]) simp_all
  then have vals: "list_all (\<lambda>(k, v). \<exists>p. v = Ref p \<and> length h \<le> p \<and> array_at h' v \<noteq> None) diff"
    unfolding h' by (rule pair_refs_append)
  have t: "lookup h' this = Some (SnapshotObj s)" by (simp add: h' tdef lookup_def nth_append)
  have d: "lookup h' (s_changedAttributes s) = Some (Plain diff)"
    by (simp add: h' sc lookup_def nth_append)
  from len sc have "length h \<le> s_changedAttributes s" by simp
  with t d vals show ?thesis by (intro exI [of _ s] exI [of _ diff] conjI)
qed

lemma list_all_pairs:
  assumes "list_all (\<lambda>(k, v). \<exists>p. v = Ref p \<and> lo \<le> p \<and> array_at h v \<noteq> None) ps"
  shows "list_all (\<lambda>(k, v). array_at h v \<noteq> None) ps"
  unfolding list_all_iff
proof
  fix x assume "x \<in> set ps"
  with assms show "case x of (k, v) \<Rightarrow> array_at h v \<noteq> None"
    by (cases x) (auto simp: list_all_iff)
qed

lemma Snapshot_ok:
  assumes "Snapshot h m = Inr (this, h')"
  shows "snapshot_ok h' this"
proof -
  from Snapshot_changed [OF assms] obtain s stored where
    s: "lookup h' this = Some (SnapshotObj s)"
    and c: "lookup h' (s_changedAttributes s) = Some (Plain stored)"
    and v: "list_all (\<lambda>(k, v). \<exists>p. v = Ref p \<and> length h \<le> p \<and> array_at h' v \<noteq> None) stored"
    by blast
  from Snapshot_facts [OF assms] obtain r s' where
    s': "lookup h' this = Some (SnapshotObj s')"
    and a': "lookup h' (s_attributes s') = Some (Plain (eachAttribute_capture (attributeNames r) r []))"
    by metis
  from s s' have "s' = s" by simp
  with a' have a: "lookup h' (s_attributes s) = Some (Plain (eachAttribute_capture (attributeNames r) r []))"
    by simp
  show ?thesis using s a c list_all_pairs [OF v] by (simp add: snapshot_ok_def)
qed






end
